theory Spec2Isabelle
  imports Complex_Main
begin

section \<open>The adaptive step size controller of diffrax\<close>

text \<open>
  A shallow embedding of \<^verbatim>\<open>diffrax/step_size_controller/adaptive.py\<close>: the error norm,
  the initial step selector, the error scaler, the two grid clippers and the methods
  \<^verbatim>\<open>init\<close> and \<^verbatim>\<open>adapt_step_size\<close> of \<^verbatim>\<open>IController\<close>.

  Scalars of the controller (times, step sizes, tolerances, factors) are modelled as
  reals: what is proved about them concerns comparisons, selections and the formulas the
  code evaluates, in exact arithmetic. The error norm and the initial step selector,
  whose contracts speak of finite and of positive results, are evaluated in
  floating-point arithmetic, with overflow and underflow. State vectors are flat lists
  (the result of \<^verbatim>\<open>ravel_pytree\<close>), so \<^verbatim>\<open>unravel_y\<close> followed by the norm's own
  ravel is the identity. The configuration is that of a bound controller, the result of
  \<^verbatim>\<open>wrap\<close>:
  its grids are already multiplied by the direction. Where the code tests a dtype
  (\<^verbatim>\<open>jnp.issubdtype(_, jnp.inexact)\<close>), the answer of the test is an argument of the
  model. Leading underscores of the source's names are dropped.
\<close>

subsection \<open>Errors, result codes, arrays\<close>

text \<open>
  The exceptions the code can raise. \<^verbatim>\<open>TypeError\<close> stands for the failure of
  \<^verbatim>\<open>jnp.searchsorted\<close> and \<^verbatim>\<open>len\<close> on \<^verbatim>\<open>None\<close>, \<^verbatim>\<open>IndexError\<close> for the
  failure of indexing an array that has no element.
\<close>

datatype error = ValueError | NotImplementedError | TypeError | IndexError | ZeroDivisionError

text \<open>
  Modelled from the spec: \<^verbatim>\<open>RESULTS\<close> (from \<^verbatim>\<open>..solution\<close>, not part of the sources),
  an enumeration of which this file only ever produces \<^verbatim>\<open>successful\<close> and
  \<^verbatim>\<open>dt_min_reached\<close>.
\<close>

datatype RESULTS = successful | dt_min_reached

text \<open>
  A one-dimensional array: whether its dtype is a floating-point one
  (\<^verbatim>\<open>jnp.issubdtype(a.dtype, jnp.inexact)\<close>) and its elements.
\<close>

record ndarray =
  inexact :: bool
  elems :: "real list"

text \<open>
  \<^verbatim>\<open>nextafter\<close> and \<^verbatim>\<open>nextbefore\<close> are imported from \<^verbatim>\<open>..misc\<close>, which is not
  part of the sources: they are parameters of the model.
\<close>

record misc =
  nextafter :: "real \<Rightarrow> real"
  nextbefore :: "real \<Rightarrow> real"

text \<open>
  Modelled from the spec: \<^verbatim>\<open>nextafter(x)\<close> is "the smallest representable value strictly
  greater than" \<open>x\<close> and \<^verbatim>\<open>nextbefore(x)\<close> "the largest representable value strictly
  less than" \<open>x\<close>. \<open>R\<close> lists the finite values of the floating-point dtype of the times.
  Where \<open>R\<close> has no value on that side of \<open>x\<close> (the code then returns an infinity), \<open>x\<close>
  is returned.
\<close>

definition smallest_above :: "real list \<Rightarrow> real \<Rightarrow> real" where
  "smallest_above R x = (case filter (\<lambda>r. x < r) R of [] \<Rightarrow> x | r # rs \<Rightarrow> fold min rs r)"

definition largest_below :: "real list \<Rightarrow> real \<Rightarrow> real" where
  "largest_below R x = (case filter (\<lambda>r. r < x) R of [] \<Rightarrow> x | r # rs \<Rightarrow> fold max rs r)"

definition float_misc :: "real list \<Rightarrow> misc" where
  "float_misc R = \<lparr>nextafter = smallest_above R, nextbefore = largest_below R\<rparr>"

text \<open>
  \<^verbatim>\<open>jnp.searchsorted(a, v)\<close> with the default \<^verbatim>\<open>side='left'\<close>, on an array \<open>a\<close> in
  ascending order: the first index \<open>i\<close> with \<open>v \<le> a[i]\<close>, the number of elements when
  there is none. The library searches by bisection, and on an array that is not in
  ascending order its result depends on the bisection: the function below is the search
  for ascending arrays only, and what is proved of a grid that is searched is stated for
  an ascending one.
\<close>

fun searchsorted :: "real list \<Rightarrow> real \<Rightarrow> nat" where
  "searchsorted [] v = 0"
| "searchsorted (a # as) v = (if a < v then Suc (searchsorted as v) else 0)"

text \<open>
  \<^verbatim>\<open>a[i]\<close> for an integer index computed at run time: a negative index counts from the
  end, and an index out of range is clamped to the array. An array without elements
  cannot be indexed.
\<close>

definition getitem :: "real list \<Rightarrow> int \<Rightarrow> error + real" where
  "getitem a i =
     (if a = [] then Inl IndexError
      else let n = int (length a); j = (if i < 0 then i + n else i)
           in Inr (a ! nat (max 0 (min j (n - 1)))))"

subsection \<open>The controller's configuration\<close>

record icontroller =
  rtol :: real
  atol :: real
  safety :: real
  ifactor :: real
  dfactor :: real
  normf :: "real list \<Rightarrow> real"
  dtmin :: "real option"
  dtmax :: "real option"
  force_dtmin :: bool
  unvmap_dt :: bool
  step_ts :: "ndarray option"
  jump_ts :: "ndarray option"

subsection \<open>Grid clipping\<close>

definition clip_step_ts :: "icontroller \<Rightarrow> real \<Rightarrow> real \<Rightarrow> error + real" where
  "clip_step_ts self t0 t1 =
     (case step_ts self of
        None \<Rightarrow> Inr t1
      | Some sts \<Rightarrow>
          if unvmap_dt self then Inl NotImplementedError
          else
            let t0_index = searchsorted (elems sts) t0;
                t1_index = searchsorted (elems sts) t1
            in (case getitem (elems sts)
                       (min (int t0_index) (int (length (elems sts)) - 1)) of
                  Inl e \<Rightarrow> Inl e
                | Inr s \<Rightarrow> Inr (if t0_index < t1_index then s else t1)))"

text \<open>
  \<open>t1_inexact\<close> is \<^verbatim>\<open>jnp.issubdtype(t1.dtype, jnp.inexact)\<close> for the argument
  \<^verbatim>\<open>t1\<close>. The two searches and the length are taken on \<^verbatim>\<open>self.step_ts\<close>, as the
  source has them.
\<close>

definition clip_jump_ts ::
  "icontroller \<Rightarrow> misc \<Rightarrow> bool \<Rightarrow> real \<Rightarrow> real \<Rightarrow> error + (real \<times> bool)" where
  "clip_jump_ts self M t1_inexact t0 t1 =
     (case jump_ts self of
        None \<Rightarrow> Inr (t1, False)
      | Some jts \<Rightarrow>
          if unvmap_dt self then Inl NotImplementedError
          else if \<not> inexact jts then Inl ValueError
          else if \<not> t1_inexact then Inl ValueError
          else
            (case step_ts self of
               None \<Rightarrow> Inl TypeError
             | Some sts \<Rightarrow>
                 let t0_index = searchsorted (elems sts) t0;
                     t1_index = searchsorted (elems sts) t1;
                     cond = (t0_index < t1_index)
                 in (case getitem (elems jts)
                            (min (int t0_index) (int (length (elems sts)) - 1)) of
                       Inl e \<Rightarrow> Inl e
                     | Inr j \<Rightarrow> Inr (if cond then nextbefore M j else t1, cond))))"

subsection \<open>Floating-point values\<close>

text \<open>
  The contracts of \<^verbatim>\<open>_rms_norm\<close> and \<^verbatim>\<open>_select_initial_step\<close> speak of finite, positive
  and NaN results, so these two functions are evaluated over floating-point values: a
  finite number, an infinity or NaN. A format \<open>F\<close> has a largest finite value \<open>fmax F\<close>
  and a rounding \<open>rnd F\<close>, which takes the exact result of an operation to the value
  that represents it, before the range is applied. \<open>box F r\<close> is the result of an
  operation whose exact value is \<open>r\<close>: the rounded value, or the infinity of its sign when
  that is beyond the largest finite value (overflow). A rounding may take a small non-zero
  value to zero (underflow). The model has one zero, the positive one.
\<close>

datatype flt = Fin real | PInf | NInf | NaN

record format =
  fmax :: real
  rnd :: "real \<Rightarrow> real"

definition box :: "format \<Rightarrow> real \<Rightarrow> flt" where
  "box F r =
     (let q = rnd F r
      in if fmax F < q then PInf else if q < - fmax F then NInf else Fin q)"

text \<open>
  The arithmetic of \<^verbatim>\<open>jax.numpy\<close> on such values: \<^verbatim>\<open>+\<close>, \<^verbatim>\<open>-\<close>, \<^verbatim>\<open>*\<close>, \<^verbatim>\<open>/\<close>,
  \<^verbatim>\<open>jnp.abs\<close>, \<^verbatim>\<open><\<close>, \<^verbatim>\<open><=\<close> (false when an operand is NaN), \<^verbatim>\<open>jnp.maximum\<close> and
  \<^verbatim>\<open>jnp.minimum\<close> (NaN when an operand is NaN), \<^verbatim>\<open>jnp.sqrt\<close> and \<^verbatim>\<open>**\<close>.
\<close>

fun fadd :: "format \<Rightarrow> flt \<Rightarrow> flt \<Rightarrow> flt" where
  "fadd F (Fin a) (Fin b) = box F (a + b)"
| "fadd F NaN y = NaN"
| "fadd F x NaN = NaN"
| "fadd F PInf NInf = NaN"
| "fadd F NInf PInf = NaN"
| "fadd F PInf y = PInf"
| "fadd F x PInf = PInf"
| "fadd F NInf y = NInf"
| "fadd F x NInf = NInf"

fun fsub :: "format \<Rightarrow> flt \<Rightarrow> flt \<Rightarrow> flt" where
  "fsub F (Fin a) (Fin b) = box F (a - b)"
| "fsub F NaN y = NaN"
| "fsub F x NaN = NaN"
| "fsub F PInf PInf = NaN"
| "fsub F NInf NInf = NaN"
| "fsub F PInf y = PInf"
| "fsub F x NInf = PInf"
| "fsub F NInf y = NInf"
| "fsub F x PInf = NInf"

fun fmul :: "format \<Rightarrow> flt \<Rightarrow> flt \<Rightarrow> flt" where
  "fmul F (Fin a) (Fin b) = box F (a * b)"
| "fmul F NaN y = NaN"
| "fmul F x NaN = NaN"
| "fmul F PInf (Fin b) = (if b = 0 then NaN else if 0 < b then PInf else NInf)"
| "fmul F NInf (Fin b) = (if b = 0 then NaN else if 0 < b then NInf else PInf)"
| "fmul F (Fin a) PInf = (if a = 0 then NaN else if 0 < a then PInf else NInf)"
| "fmul F (Fin a) NInf = (if a = 0 then NaN else if 0 < a then NInf else PInf)"
| "fmul F PInf PInf = PInf"
| "fmul F PInf NInf = NInf"
| "fmul F NInf PInf = NInf"
| "fmul F NInf NInf = PInf"

fun fdiv :: "format \<Rightarrow> flt \<Rightarrow> flt \<Rightarrow> flt" where
  "fdiv F (Fin a) (Fin b) =
     (if b = 0 then (if a = 0 then NaN else if 0 < a then PInf else NInf)
      else box F (a / b))"
| "fdiv F NaN y = NaN"
| "fdiv F x NaN = NaN"
| "fdiv F (Fin a) y = Fin 0"
| "fdiv F PInf (Fin b) = (if 0 \<le> b then PInf else NInf)"
| "fdiv F NInf (Fin b) = (if 0 \<le> b then NInf else PInf)"
| "fdiv F x y = NaN"

fun fabs :: "flt \<Rightarrow> flt" where
  "fabs (Fin a) = Fin \<bar>a\<bar>"
| "fabs PInf = PInf"
| "fabs NInf = PInf"
| "fabs NaN = NaN"

fun fless :: "flt \<Rightarrow> flt \<Rightarrow> bool" where
  "fless (Fin a) (Fin b) = (a < b)"
| "fless NaN y = False"
| "fless x NaN = False"
| "fless x NInf = False"
| "fless PInf y = False"
| "fless x y = True"

fun fle :: "flt \<Rightarrow> flt \<Rightarrow> bool" where
  "fle (Fin a) (Fin b) = (a \<le> b)"
| "fle NaN y = False"
| "fle x NaN = False"
| "fle NInf y = True"
| "fle x PInf = True"
| "fle x y = False"

fun fmaximum :: "flt \<Rightarrow> flt \<Rightarrow> flt" where
  "fmaximum (Fin a) (Fin b) = Fin (max a b)"
| "fmaximum NaN y = NaN"
| "fmaximum x NaN = NaN"
| "fmaximum PInf y = PInf"
| "fmaximum x PInf = PInf"
| "fmaximum NInf y = y"
| "fmaximum x NInf = x"

fun fminimum :: "flt \<Rightarrow> flt \<Rightarrow> flt" where
  "fminimum (Fin a) (Fin b) = Fin (min a b)"
| "fminimum NaN y = NaN"
| "fminimum x NaN = NaN"
| "fminimum NInf y = NInf"
| "fminimum x NInf = NInf"
| "fminimum PInf y = y"
| "fminimum x PInf = x"

fun fsqrt :: "format \<Rightarrow> flt \<Rightarrow> flt" where
  "fsqrt F (Fin a) = (if a < 0 then NaN else box F (sqrt a))"
| "fsqrt F PInf = PInf"
| "fsqrt F NInf = NaN"
| "fsqrt F NaN = NaN"

fun fpow :: "format \<Rightarrow> flt \<Rightarrow> flt \<Rightarrow> flt" where
  "fpow F x (Fin e) =
     (if e = 0 then Fin 1
      else (case x of
              Fin a \<Rightarrow>
                if 0 < a then box F (a powr e)
                else if a = 0 then (if 0 < e then Fin 0 else PInf)
                else if e \<in> \<int> then box F ((if even \<lfloor>e\<rfloor> then 1 else - 1) * (\<bar>a\<bar> powr e))
                else NaN
            | PInf \<Rightarrow> if 0 < e then PInf else Fin 0
            | NInf \<Rightarrow> if 0 < e then (if e \<in> \<int> \<and> odd \<lfloor>e\<rfloor> then NInf else PInf) else Fin 0
            | NaN \<Rightarrow> NaN))"
| "fpow F x PInf =
     (case x of
        Fin a \<Rightarrow> if \<bar>a\<bar> < 1 then Fin 0 else if \<bar>a\<bar> = 1 then Fin 1 else PInf
      | NaN \<Rightarrow> NaN
      | _ \<Rightarrow> PInf)"
| "fpow F x NInf =
     (case x of
        Fin a \<Rightarrow> if \<bar>a\<bar> < 1 then PInf else if \<bar>a\<bar> = 1 then Fin 1 else Fin 0
      | NaN \<Rightarrow> NaN
      | _ \<Rightarrow> Fin 0)"
| "fpow F x NaN = (if x = Fin 1 then Fin 1 else NaN)"

text \<open>
  What the statements below assume of a format, and what rounding to nearest has: the
  largest finite value is at least \<open>1\<close> and is a value of the format, as are \<open>0\<close> and
  \<open>1\<close>; rounding is monotone, and leaves a rounded value as it is.
\<close>

definition rounding :: "format \<Rightarrow> bool" where
  "rounding F \<longleftrightarrow>
     1 \<le> fmax F \<and> rnd F 0 = 0 \<and> rnd F 1 = 1 \<and> rnd F (fmax F) = fmax F \<and>
     (\<forall>a b. a \<le> b \<longrightarrow> rnd F a \<le> rnd F b) \<and> (\<forall>a. rnd F (rnd F a) = rnd F a)"

text \<open>
  A value that is not NaN and not negative, and a value of the format that is not NaN and
  is positive.
\<close>

definition fnonneg :: "flt \<Rightarrow> bool" where
  "fnonneg x = (case x of Fin r \<Rightarrow> 0 \<le> r | PInf \<Rightarrow> True | NInf \<Rightarrow> False | NaN \<Rightarrow> False)"

definition fpos :: "format \<Rightarrow> flt \<Rightarrow> bool" where
  "fpos F x =
     (case x of Fin r \<Rightarrow> 0 < r \<and> rnd F r = r | PInf \<Rightarrow> True | NInf \<Rightarrow> False | NaN \<Rightarrow> False)"

subsection \<open>The error norm\<close>

text \<open>
  \<^verbatim>\<open>jnp.mean\<close> divides the sum of the elements by their number, converted to the format;
  the sum is taken from left to right. \<^verbatim>\<open>x ** 2\<close> is the product of \<^verbatim>\<open>x\<close> with
  itself.
\<close>

definition fmean :: "format \<Rightarrow> flt list \<Rightarrow> flt" where
  "fmean F x = fdiv F (fold (\<lambda>v s. fadd F s v) x (Fin 0)) (box F (real (length x)))"

definition rms_norm :: "format \<Rightarrow> flt list \<Rightarrow> flt" where
  "rms_norm F x =
     (if length x = 0 then Fin 0
      else
        let sqnorm = fmean F (map (\<lambda>v. fmul F v v) x);
            cond = (sqnorm = Fin 0);
            sqnorm' = (if cond then Fin 1 else sqnorm)
        in if cond then Fin 0 else fsqrt F sqnorm')"

subsection \<open>Lockstep reductions\<close>

text \<open>
  Modelled from the spec: \<^verbatim>\<open>unvmap\<close> (from \<^verbatim>\<open>..misc\<close>, not part of the sources)
  exposes the whole batch of a vectorised call, so that \<^verbatim>\<open>jnp.min(unvmap(x))\<close> is the
  minimum and \<^verbatim>\<open>jnp.all(unvmap(b))\<close> the conjunction over all lanes of the batch. A
  lane's computation is modelled with the values of the other lanes (its peers) as an
  additional argument; a call that is not vectorised has no peers.
\<close>

definition unvmap_min :: "real list \<Rightarrow> real \<Rightarrow> real" where
  "unvmap_min peers x = fold min peers x"

definition unvmap_all :: "bool list \<Rightarrow> bool \<Rightarrow> bool" where
  "unvmap_all peers b = (b \<and> list_all (\<lambda>p. p) peers)"

subsection \<open>The initial step selector\<close>

text \<open>
  The selector is written once, over the arithmetic it is evaluated in: that of the
  reals, which \<^verbatim>\<open>init\<close> uses with the other scalars of the controller, and that of a
  floating-point format, for what its contract says of the sign of its result.
  \<open>op_lit\<close> converts a Python number to the dtype of the array it meets.
\<close>

record 'a arith =
  op_lit :: "real \<Rightarrow> 'a"
  op_add :: "'a \<Rightarrow> 'a \<Rightarrow> 'a"
  op_sub :: "'a \<Rightarrow> 'a \<Rightarrow> 'a"
  op_mul :: "'a \<Rightarrow> 'a \<Rightarrow> 'a"
  op_div :: "'a \<Rightarrow> 'a \<Rightarrow> 'a"
  op_abs :: "'a \<Rightarrow> 'a"
  op_less :: "'a \<Rightarrow> 'a \<Rightarrow> bool"
  op_le :: "'a \<Rightarrow> 'a \<Rightarrow> bool"
  op_max :: "'a \<Rightarrow> 'a \<Rightarrow> 'a"
  op_min :: "'a \<Rightarrow> 'a \<Rightarrow> 'a"
  op_pow :: "'a \<Rightarrow> 'a \<Rightarrow> 'a"

definition real_arith :: "real arith" where
  "real_arith =
     \<lparr>op_lit = (\<lambda>c. c), op_add = (+), op_sub = (-), op_mul = (*), op_div = (/),
      op_abs = abs, op_less = (<), op_le = (\<le>), op_max = max, op_min = min,
      op_pow = (powr)\<rparr>"

definition float_arith :: "format \<Rightarrow> flt arith" where
  "float_arith F =
     \<lparr>op_lit = box F, op_add = fadd F, op_sub = fsub F, op_mul = fmul F, op_div = fdiv F,
      op_abs = fabs, op_less = fless, op_le = fle, op_max = fmaximum, op_min = fminimum,
      op_pow = fpow F\<rparr>"

text \<open>
  Modelled from the spec: \<^verbatim>\<open>AbstractSolver\<close> (from \<^verbatim>\<open>..solver\<close>, not part of the
  sources) exposes a derivative evaluation, here with \<^verbatim>\<open>args\<close> fixed, and an order, an
  integer or a float. In the selector \<^verbatim>\<open>1 / solver.order\<close> is a division of Python
  numbers, which raises on an order of zero; its quotient is converted to the format when
  it becomes the exponent.
\<close>

record 'a solver =
  func_for_init :: "'a \<Rightarrow> 'a list \<Rightarrow> 'a list"
  order :: real

definition select_initial_step ::
  "'a arith \<Rightarrow> 'a \<Rightarrow> 'a list \<Rightarrow> 'a solver \<Rightarrow> 'a \<Rightarrow> 'a \<Rightarrow> ('a list \<Rightarrow> 'a) \<Rightarrow> error + 'a" where
  "select_initial_step A t0 y0 solver rtol' atol' norm' =
     (let f0 = func_for_init solver t0 y0;
          scale = map (\<lambda>y. op_add A atol' (op_mul A (op_abs A y) rtol')) y0;
          d0 = norm' (map2 (op_div A) y0 scale);
          d1 = norm' (map2 (op_div A) f0 scale);
          cond' = (op_less A d0 (op_lit A (1 / 10 ^ 5)) \<or> op_less A d1 (op_lit A (1 / 10 ^ 5)));
          d1' = (if cond' then op_lit A 1 else d1);
          h0 = (if cond' then op_lit A (1 / 10 ^ 6)
                else op_mul A (op_lit A (1 / 100)) (op_div A d0 d1'));
          t1 = op_add A t0 h0;
          y1 = map2 (\<lambda>y f. op_add A y (op_mul A h0 f)) y0 f0;
          f1 = func_for_init solver t1 y1;
          d2 = op_div A (norm' (map2 (op_div A) (map2 (op_sub A) f1 f0) scale)) h0
      in if order solver = 0 then Inl ZeroDivisionError
         else
           let h1 = (if op_le A d1 (op_lit A (1 / 10 ^ 15)) \<or> op_le A d2 (op_lit A (1 / 10 ^ 15))
                     then op_max A (op_lit A (1 / 10 ^ 6)) (op_mul A h0 (op_lit A (1 / 10 ^ 3)))
                     else op_pow A (op_mul A (op_lit A (1 / 100)) (op_max A d1 d2))
                            (op_lit A (1 / order solver)))
           in Inr (op_min A (op_mul A (op_lit A 100) h0) h1))"

subsection \<open>The error scaler\<close>

text \<open>
  The division is that of the reals. Where a component of
  \<^verbatim>\<open>atol + jnp.maximum(y0, y1_candidate) * rtol\<close> is zero the code divides by zero and
  gets an infinity or NaN, which the reals do not have: a call with such a component is
  outside the model.
\<close>

definition scale_error_estimate ::
  "real list \<Rightarrow> real list \<Rightarrow> real list \<Rightarrow> real \<Rightarrow> real \<Rightarrow> (real list \<Rightarrow> real) \<Rightarrow> real" where
  "scale_error_estimate y_error y0 y1_candidate rtol' atol' norm' =
     (let scale = map2 (/) y_error (map (\<lambda>m. atol' + m * rtol') (map2 max y0 y1_candidate))
      in norm' scale)"

subsection \<open>The controller\<close>

text \<open>
  \<^verbatim>\<open>jnp.clip(a, a_min, a_max)\<close> is \<^verbatim>\<open>minimum(a_max, maximum(a_min, a))\<close>. In
  \<^verbatim>\<open>_scale_factor\<close> the exponent \<^verbatim>\<open>1 / order\<close> is a real for a positive order; for an
  order of zero the exponent of the code is infinite, which the reals do not have, and a
  call with that order is outside the model.
\<close>

definition clip :: "real \<Rightarrow> real \<Rightarrow> real \<Rightarrow> real" where
  "clip a a_min a_max = min a_max (max a_min a)"

definition scale_factor :: "icontroller \<Rightarrow> nat \<times> bool \<times> real \<Rightarrow> real" where
  "scale_factor self operand =
     (case operand of (order', keep_step, scaled_error) \<Rightarrow>
        let dfactor' = (if keep_step then 1 else dfactor self);
            exponent = 1 / real order'
        in clip (safety self / scaled_error powr exponent) dfactor' (ifactor self))"

text \<open>The clip to \<^verbatim>\<open>dtmax\<close>, which \<^verbatim>\<open>init\<close> and \<^verbatim>\<open>adapt_step_size\<close> share.\<close>

definition clip_dtmax :: "icontroller \<Rightarrow> real \<Rightarrow> real" where
  "clip_dtmax self dt = (case dtmax self of None \<Rightarrow> dt | Some mx \<Rightarrow> min dt mx)"

text \<open>
  \<^verbatim>\<open>init\<close>. \<open>peers_dt0\<close> are the values of \<^verbatim>\<open>dt0\<close> in the other lanes when the call is
  vectorised, \<open>t1_inexact\<close> says whether \<^verbatim>\<open>t0 + dt0\<close> has a floating-point dtype. The
  \<^verbatim>\<open>jnp.where\<close> of \<^verbatim>\<open>_clip_step_ts\<close> promotes its result to the common dtype of the grid
  and of \<^verbatim>\<open>t1\<close>, so the time that reaches \<^verbatim>\<open>_clip_jump_ts\<close> is of a floating-point
  dtype when \<^verbatim>\<open>t0 + dt0\<close> is or when the step grid is.
\<close>

definition init ::
  "icontroller \<Rightarrow> misc \<Rightarrow> real list \<Rightarrow> bool \<Rightarrow> real \<Rightarrow> real list \<Rightarrow> real option
     \<Rightarrow> real solver \<Rightarrow> error + (real \<times> (bool \<times> bool))" where
  "init self M peers_dt0 t1_inexact t0 y0 dt0 solver =
     (case (case dt0 of
              None \<Rightarrow>
                select_initial_step real_arith t0 y0 solver (rtol self) (atol self) (normf self)
            | Some d \<Rightarrow> Inr d) of
        Inl e \<Rightarrow> Inl e
      | Inr dt0a \<Rightarrow>
          let dt0b = (if unvmap_dt self then unvmap_min peers_dt0 dt0a else dt0a);
              dt0c = clip_dtmax self dt0b;
              at_dtmin = (case dtmin self of None \<Rightarrow> False | Some mn \<Rightarrow> dt0c \<le> mn);
              dt0d = (case dtmin self of None \<Rightarrow> dt0c | Some mn \<Rightarrow> max dt0c mn)
          in (case clip_step_ts self t0 (t0 + dt0d) of
                Inl e \<Rightarrow> Inl e
              | Inr t1 \<Rightarrow>
                  (case clip_jump_ts self M
                          (t1_inexact \<or> (case step_ts self of None \<Rightarrow> False | Some sts \<Rightarrow> inexact sts))
                          t0 t1 of
                     Inl e \<Rightarrow> Inl e
                   | Inr (t1', jump_next_step) \<Rightarrow> Inr (t1', (jump_next_step, at_dtmin)))))"

text \<open>
  The accept/reject decision of one lane (lines 219 to 221) and its step size multiplier
  (lines 234 to 241), before the lockstep reductions. \<^verbatim>\<open>lax.cond\<close> passes the operand
  as arrays, so that \<^verbatim>\<open>1 / order\<close> in \<^verbatim>\<open>_scale_factor\<close> does not raise.
\<close>

definition lane_keep_step :: "icontroller \<Rightarrow> real \<Rightarrow> bool \<Rightarrow> bool" where
  "lane_keep_step self scaled_error at_dtmin =
     (let keep_step = (scaled_error < 1)
      in if dtmin self \<noteq> None then keep_step \<or> at_dtmin else keep_step)"

definition lane_factor :: "icontroller \<Rightarrow> nat \<Rightarrow> bool \<Rightarrow> real \<Rightarrow> real" where
  "lane_factor self solver_order keep_step scaled_error =
     (let cond = (scaled_error = 0);
          scaled_error' = (if cond then 1 else scaled_error)
      in if cond then ifactor self
         else scale_factor self (solver_order, keep_step, scaled_error'))"

text \<open>
  Another lane of a vectorised call: what the two reductions of \<^verbatim>\<open>adapt_step_size\<close>
  read of it, its scaled error and the \<^verbatim>\<open>at_dtmin\<close> of its controller state.
\<close>

record peer =
  p_scaled_error :: real
  p_at_dtmin :: bool

text \<open>
  The value of \<^verbatim>\<open>keep_step\<close> after line 223 and the value of \<^verbatim>\<open>factor\<close> after line
  244, where the lockstep reductions have been applied.
\<close>

definition keep_step_of :: "icontroller \<Rightarrow> peer list \<Rightarrow> real \<Rightarrow> bool \<Rightarrow> bool" where
  "keep_step_of self peers scaled_error at_dtmin =
     (let keep_step = lane_keep_step self scaled_error at_dtmin
      in if unvmap_dt self
         then unvmap_all
                (map (\<lambda>p. lane_keep_step self (p_scaled_error p) (p_at_dtmin p)) peers)
                keep_step
         else keep_step)"

definition factor_of :: "icontroller \<Rightarrow> peer list \<Rightarrow> nat \<Rightarrow> bool \<Rightarrow> real \<Rightarrow> real" where
  "factor_of self peers solver_order keep_step scaled_error =
     (let factor = lane_factor self solver_order keep_step scaled_error
      in if unvmap_dt self
         then unvmap_min
                (map (\<lambda>p. lane_factor self solver_order keep_step (p_scaled_error p)) peers)
                factor
         else factor)"

text \<open>
  \<^verbatim>\<open>adapt_step_size\<close>. \<open>t1_inexact\<close> is \<^verbatim>\<open>jnp.issubdtype(t1.dtype, jnp.inexact)\<close>
  for the argument \<^verbatim>\<open>t1\<close>. The value passed on to \<^verbatim>\<open>_clip_jump_ts\<close> is
  \<^verbatim>\<open>next_t0 + dt\<close>, of a floating-point dtype since \<^verbatim>\<open>dt\<close> is a product with the
  floating-point factor. The result is the tuple \<^verbatim>\<open>(keep_step, next_t0, next_t1,
  made_jump, (next_made_jump, at_dtmin), result)\<close>.
\<close>

definition adapt_step_size ::
  "icontroller \<Rightarrow> misc \<Rightarrow> peer list \<Rightarrow> bool \<Rightarrow> real \<Rightarrow> real \<Rightarrow> real list \<Rightarrow> real list
     \<Rightarrow> real list option \<Rightarrow> nat \<Rightarrow> bool \<times> bool
     \<Rightarrow> error + (bool \<times> real \<times> real \<times> bool \<times> (bool \<times> bool) \<times> RESULTS)" where
  "adapt_step_size self M peers t1_inexact t0 t1 y0 y1_candidate y_error solver_order
       controller_state =
     (case y_error of
        None \<Rightarrow> Inl ValueError
      | Some y_err \<Rightarrow>
          let prev_dt = t1 - t0;
              made_jump = fst controller_state;
              at_dtmin = snd controller_state;
              scaled_error =
                scale_error_estimate y_err y0 y1_candidate (rtol self) (atol self) (normf self);
              keep_step = keep_step_of self peers scaled_error at_dtmin;
              factor = factor_of self peers solver_order keep_step scaled_error;
              dt_a = prev_dt * factor;
              dt_b = clip_dtmax self dt_a;
              result =
                (case dtmin self of
                   None \<Rightarrow> successful
                 | Some mn \<Rightarrow>
                     if \<not> force_dtmin self \<and> dt_b < mn then dt_min_reached else successful);
              at_dtmin' = (case dtmin self of None \<Rightarrow> False | Some mn \<Rightarrow> dt_b \<le> mn);
              dt = (case dtmin self of None \<Rightarrow> dt_b | Some mn \<Rightarrow> max dt_b mn);
              t1' = (if t1_inexact then (if made_jump then nextafter M t1 else t1) else t1);
              next_t0 = (if keep_step then t1' else t0)
          in (case clip_step_ts self next_t0 (next_t0 + dt) of
                Inl e \<Rightarrow> Inl e
              | Inr next_t1 \<Rightarrow>
                  (case clip_jump_ts self M True next_t0 next_t1 of
                     Inl e \<Rightarrow> Inl e
                   | Inr (next_t1', next_made_jump) \<Rightarrow>
                       Inr (keep_step, next_t0, next_t1', made_jump,
                            (next_made_jump, at_dtmin'), result))))"

subsection \<open>Concrete inputs\<close>

text \<open>
  The inputs of the concrete calls below: a norm (the field \<^verbatim>\<open>norm\<close> takes any
  callable), the controller with the default values of its fields and that norm, the
  neighbours of a binary64 value from \<open>1\<close> up to \<open>2\<close> (above \<open>1\<close> for the lower one) for
  \<^verbatim>\<open>nextafter\<close> and \<^verbatim>\<open>nextbefore\<close>, and a solver of order \<open>1\<close> for the equation
  \<open>dy/dt = -y\<close>.
\<close>

definition l1_norm :: "real list \<Rightarrow> real" where
  "l1_norm v = (\<Sum>x\<leftarrow>v. \<bar>x\<bar>)"

definition default_controller :: icontroller where
  "default_controller =
     \<lparr>rtol = 1 / 10 ^ 3, atol = 1 / 10 ^ 6, safety = 9 / 10, ifactor = 10, dfactor = 1 / 5,
      normf = l1_norm, dtmin = None, dtmax = None, force_dtmin = True, unvmap_dt = False,
      step_ts = None, jump_ts = None\<rparr>"

definition binary64_misc :: misc where
  "binary64_misc = \<lparr>nextafter = (\<lambda>x. x + 1 / 2 ^ 52), nextbefore = (\<lambda>x. x - 1 / 2 ^ 52)\<rparr>"

text \<open>
  Some values of binary64 from \<open>0\<close> to \<open>2\<close>, with all those from \<open>1 - 1 / 2 ^ 53\<close> to
  \<open>1 + 2 / 2 ^ 52\<close>.
\<close>

definition binary64_near_1 :: "real list" where
  "binary64_near_1 = [0, 1 - 1 / 2 ^ 53, 1, 1 + 1 / 2 ^ 52, 1 + 2 / 2 ^ 52, 2]"

text \<open>
  The range of binary32: its largest finite value, and a rounding that takes to zero what
  binary32 rounds to zero, the values of magnitude up to \<open>1 / 2 ^ 150\<close>, half the least
  positive value of the format. The rounding of the other values to 24 bits is left out
  of this format (it is a rounding in the sense above, as every rounding to nearest is).
\<close>

definition binary32 :: format where
  "binary32 = \<lparr>fmax = (2 - 1 / 2 ^ 23) * 2 ^ 127,
                rnd = (\<lambda>r. if \<bar>r\<bar> \<le> 1 / 2 ^ 150 then 0 else r)\<rparr>"

text \<open>
  For the field \<^verbatim>\<open>norm\<close>, which takes any callable: the sum of the magnitudes,
  \<^verbatim>\<open>jnp.sum(jnp.abs(x))\<close>. Two solvers of order \<open>1\<close> in floating-point arithmetic, for
  the equations \<open>dy/dt = -y\<close> and \<open>dy/dt = c\<close>.
\<close>

definition abs_sum_norm :: "format \<Rightarrow> flt list \<Rightarrow> flt" where
  "abs_sum_norm F x = fold (\<lambda>v s. fadd F s (fabs v)) x (Fin 0)"

definition float_negation_solver :: "format \<Rightarrow> flt solver" where
  "float_negation_solver F = \<lparr>func_for_init = (\<lambda>t y. map (fsub F (Fin 0)) y), order = 1\<rparr>"

definition constant_solver :: "'a \<Rightarrow> 'a solver" where
  "constant_solver c = \<lparr>func_for_init = (\<lambda>t y. map (\<lambda>v. c) y), order = 1\<rparr>"

definition negation_solver :: "real solver" where
  "negation_solver = \<lparr>func_for_init = (\<lambda>t y. map uminus y), order = 1\<rparr>"

lemmas controller_defs =
  adapt_step_size_def keep_step_of_def factor_of_def lane_keep_step_def lane_factor_def
  scale_factor_def clip_def unvmap_all_def unvmap_min_def clip_dtmax_def clip_step_ts_def
  clip_jump_ts_def scale_error_estimate_def init_def select_initial_step_def getitem_def
  default_controller_def l1_norm_def binary64_misc_def negation_solver_def real_arith_def

section \<open>Properties of floating-point arithmetic\<close>

subsection \<open>Rounding and sign\<close>

lemma rounding_mono: "rounding F \<Longrightarrow> a \<le> b \<Longrightarrow> rnd F a \<le> rnd F b"
  by (simp add: rounding_def)

lemma rounding_nonneg: "rounding F \<Longrightarrow> 0 \<le> r \<Longrightarrow> 0 \<le> rnd F r"
  using rounding_mono [of F 0 r] by (simp add: rounding_def)

lemma rounding_le_fmax: "rounding F \<Longrightarrow> r \<le> fmax F \<Longrightarrow> rnd F r \<le> fmax F"
  using rounding_mono [of F r "fmax F"] by (simp add: rounding_def)

lemma box_zero: "rounding F \<Longrightarrow> box F 0 = Fin 0"
  by (simp add: box_def rounding_def)

lemma box_nonneg: "rounding F \<Longrightarrow> 0 \<le> r \<Longrightarrow> fnonneg (box F r)"
  using rounding_nonneg [of F r] by (simp add: box_def Let_def fnonneg_def rounding_def)

lemma box_exact:
  "rounding F \<Longrightarrow> rnd F r = r \<Longrightarrow> 0 \<le> r \<Longrightarrow> r \<le> fmax F \<Longrightarrow> box F r = Fin r"
  by (simp add: box_def Let_def rounding_def)

lemma fnonneg_cases:
  "fnonneg x \<longleftrightarrow> x = PInf \<or> (\<exists>r. 0 \<le> r \<and> x = Fin r)"
  by (cases x) (auto simp: fnonneg_def)

lemma fadd_nonneg: "rounding F \<Longrightarrow> fnonneg x \<Longrightarrow> fnonneg y \<Longrightarrow> fnonneg (fadd F x y)"
  by (cases x; cases y) (auto simp: fnonneg_def [of "Fin _"] fnonneg_def [of PInf]
      fnonneg_def [of NInf] fnonneg_def [of NaN] intro: box_nonneg)

lemma fold_fadd_nonneg:
  "rounding F \<Longrightarrow> fnonneg s \<Longrightarrow> \<forall>x\<in>set xs. fnonneg x \<Longrightarrow>
   fnonneg (fold (\<lambda>v s. fadd F s v) xs s)"
  by (induction xs arbitrary: s) (auto intro: fadd_nonneg)

lemma fold_fadd_zero:
  "rounding F \<Longrightarrow> \<forall>x\<in>set xs. x = Fin 0 \<Longrightarrow> fold (\<lambda>v s. fadd F s v) xs (Fin 0) = Fin 0"
  by (induction xs) (auto simp: box_zero)

lemma box_size:
  assumes "rounding F" "1 \<le> n" "real n \<le> fmax F"
  shows "\<exists>q. 1 \<le> q \<and> box F (real n) = Fin q"
proof -
  have "rnd F 1 \<le> rnd F (real n)"
    using assms(1,2) by (intro rounding_mono) auto
  then have 1: "1 \<le> rnd F (real n)" using assms(1) by (simp add: rounding_def)
  have 2: "rnd F (real n) \<le> fmax F" using assms(1,3) by (rule rounding_le_fmax)
  from 1 2 assms(1) show ?thesis by (simp add: box_def Let_def rounding_def)
qed

lemma fdiv_nonneg:
  "rounding F \<Longrightarrow> fnonneg x \<Longrightarrow> 1 \<le> q \<Longrightarrow> fnonneg (fdiv F x (Fin q))"
  by (cases x) (auto simp: fnonneg_def [of "Fin _"] fnonneg_def [of PInf]
      fnonneg_def [of NInf] fnonneg_def [of NaN] intro: box_nonneg)

lemma fsqrt_nonneg: "rounding F \<Longrightarrow> fnonneg x \<Longrightarrow> fnonneg (fsqrt F x)"
  by (cases x) (auto simp: fnonneg_def [of "Fin _"] fnonneg_def [of PInf]
      fnonneg_def [of NInf] fnonneg_def [of NaN] intro: box_nonneg)

lemma fsqrt_zero: "rounding F \<Longrightarrow> fsqrt F (Fin 0) = Fin 0"
  by (simp add: box_zero)

lemma squares_nonneg: "rounding F \<Longrightarrow> \<forall>x\<in>set (map (\<lambda>v. fmul F v v) (map Fin rs)). fnonneg x"
  by (auto intro: box_nonneg)

lemma fmean_squares_nonneg:
  assumes "rounding F" "rs \<noteq> []" "real (length rs) \<le> fmax F"
  shows "fnonneg (fmean F (map (\<lambda>v. fmul F v v) (map Fin rs)))"
proof -
  have n: "1 \<le> length rs" using assms(2) by (cases rs) auto
  from box_size [OF assms(1) n assms(3)] obtain q where
    q: "1 \<le> q" "box F (real (length rs)) = Fin q" by blast
  have "fnonneg (Fin 0)" by (simp add: fnonneg_def)
  then have "fnonneg (fold (\<lambda>v s. fadd F s v) (map (\<lambda>v. fmul F v v) (map Fin rs)) (Fin 0))"
    using squares_nonneg [OF assms(1)] by (intro fold_fadd_nonneg assms(1))
  then show ?thesis
    unfolding fmean_def using q fdiv_nonneg [OF assms(1) _ q(1)] by simp
qed

lemma rms_norm_root:
  assumes "rounding F" "rs \<noteq> []"
  shows "rms_norm F (map Fin rs) = fsqrt F (fmean F (map (\<lambda>v. fmul F v v) (map Fin rs)))"
  using assms by (simp add: rms_norm_def Let_def fsqrt_zero del: fsqrt.simps)

text \<open>
  A sum of values of the format, all of whose partial sums are values of the format within
  its range, is exact.
\<close>

lemma fold_fadd_exact:
  assumes "rounding F"
  shows "0 \<le> a \<Longrightarrow> \<forall>y\<in>set ys. 0 \<le> y \<and> rnd F y = y \<Longrightarrow> a + sum_list ys \<le> fmax F \<Longrightarrow>
    \<forall>k\<le>length ys. rnd F (a + sum_list (take k ys)) = a + sum_list (take k ys) \<Longrightarrow>
    fold (\<lambda>v s. fadd F s v) (map (box F) ys) (Fin a) = Fin (a + sum_list ys)"
proof (induction ys arbitrary: a)
  case Nil
  then show ?case by simp
next
  case (Cons y ys)
  have s0: "0 \<le> sum_list ys"
    using Cons.prems(2) by (intro sum_list_nonneg) auto
  have y: "0 \<le> y" "rnd F y = y" using Cons.prems(2) by auto
  have "y \<le> fmax F" using Cons.prems(1,3) s0 by simp
  then have bxy: "box F y = Fin y"
    using y by (intro box_exact assms) auto
  have "rnd F (a + sum_list (take 1 (y # ys))) = a + sum_list (take 1 (y # ys))"
    using Cons.prems(4) by (metis One_nat_def Suc_leI length_Cons zero_less_Suc)
  then have r: "rnd F (a + y) = a + y" by simp
  have "a + y \<le> fmax F" using Cons.prems(3) s0 by simp
  then have bay: "box F (a + y) = Fin (a + y)"
    using r y(1) Cons.prems(1) by (intro box_exact assms) auto
  have pre: "\<forall>k\<le>length ys. rnd F ((a + y) + sum_list (take k ys)) = (a + y) + sum_list (take k ys)"
  proof (intro allI impI)
    fix k assume "k \<le> length ys"
    then have "Suc k \<le> length (y # ys)" by simp
    with Cons.prems(4) have
      "rnd F (a + sum_list (take (Suc k) (y # ys))) = a + sum_list (take (Suc k) (y # ys))"
      by blast
    then show "rnd F ((a + y) + sum_list (take k ys)) = (a + y) + sum_list (take k ys)"
      by (simp add: add.assoc)
  qed
  have "fold (\<lambda>v s. fadd F s v) (map (box F) ys) (Fin (a + y)) = Fin ((a + y) + sum_list ys)"
    using Cons.prems y(1) pre by (intro Cons.IH) (auto simp: add.assoc)
  then show ?case by (simp add: bxy bay add.assoc)
qed

lemma take_in_subseqs: "take k xs \<in> set (subseqs xs)"
proof (induction xs arbitrary: k)
  case Nil
  show ?case by simp
next
  case (Cons x xs)
  show ?case
  proof (cases k)
    case 0
    with Cons [of 0] show ?thesis by (simp add: Let_def)
  next
    case (Suc j)
    with Cons [of j] show ?thesis by (simp add: Let_def)
  qed
qed

lemma fpos_simps [simp]:
  "fpos F (Fin r) \<longleftrightarrow> 0 < r \<and> rnd F r = r" "fpos F PInf" "\<not> fpos F NInf" "\<not> fpos F NaN"
  by (simp_all add: fpos_def)

lemma fnonneg_simps [simp]:
  "fnonneg (Fin r) \<longleftrightarrow> 0 \<le> r" "fnonneg PInf" "\<not> fnonneg NInf" "\<not> fnonneg NaN"
  by (simp_all add: fnonneg_def)

lemma rounding_idem: "rounding F \<Longrightarrow> rnd F (rnd F a) = rnd F a"
  by (simp add: rounding_def)

lemma box_cases:
  "box F r = PInf \<or> box F r = NInf \<or> box F r = Fin (rnd F r)"
  by (simp add: box_def Let_def)

lemma box_fpos:
  assumes "rounding F" "0 < rnd F c" "c \<le> r"
  shows "fpos F (box F r)"
proof -
  have "rnd F c \<le> rnd F r" using assms(1,3) by (rule rounding_mono)
  with assms(2) have p: "0 < rnd F r" by simp
  have "1 \<le> fmax F" using assms(1) by (simp add: rounding_def)
  with p show ?thesis
    by (simp add: box_def Let_def rounding_idem [OF assms(1)])
qed

lemma box_fpos_repr:
  assumes "rounding F" "0 < y" "rnd F y = y" "y \<le> r"
  shows "fpos F (box F r)"
  using assms box_fpos [of F y r] by simp

lemma box_lit_small:
  assumes "rounding F" "0 < rnd F c" "c \<le> 1"
  shows "box F c = Fin (rnd F c) \<and> rnd F c \<le> 1"
proof -
  have "rnd F c \<le> rnd F 1" using assms(1,3) by (rule rounding_mono)
  then have "rnd F c \<le> 1" using assms(1) by (simp add: rounding_def)
  moreover have "1 \<le> fmax F" using assms(1) by (simp add: rounding_def)
  ultimately show ?thesis using assms(2) by (simp add: box_def Let_def)
qed

lemma fnonneg_nonzero_fpos:
  "fnonneg x \<Longrightarrow> x \<noteq> Fin 0 \<Longrightarrow> (\<And>r. x = Fin r \<Longrightarrow> rnd F r = r) \<Longrightarrow> fpos F x"
  by (cases x) auto

lemma box_repr: "rounding F \<Longrightarrow> box F r = Fin q \<Longrightarrow> rnd F q = q"
  using box_cases [of F r] by (auto simp: rounding_idem)

lemma fminimum_fpos: "fpos F x \<Longrightarrow> fpos F y \<Longrightarrow> fpos F (fminimum x y)"
  by (cases x; cases y) (auto simp: min_def)

lemma fmul_fpos_ge1:
  assumes F: "rounding F" and q: "1 \<le> c" and x: "fpos F x"
  shows "fpos F (fmul F (box F c) x)"
proof -
  have "rnd F 1 \<le> rnd F c" using F q by (rule rounding_mono)
  then have c1: "1 \<le> rnd F c" using F by (simp add: rounding_def)
  from box_cases [of F c] c1 F have b: "box F c = PInf \<or> (box F c = Fin (rnd F c))"
    by (auto simp: box_def Let_def rounding_def)
  show ?thesis
  proof (cases x)
    case (Fin y)
    with x have y: "0 < y" "rnd F y = y" by auto
    have "y \<le> rnd F c * y" using c1 y(1) by simp
    then have "fpos F (box F (rnd F c * y))"
      by (rule box_fpos_repr [OF F y])
    with b Fin y(1) show ?thesis by auto
  next
    case PInf
    with b c1 show ?thesis by auto
  qed (use x in auto)
qed

lemma binary32_rounding: "rounding binary32"
  by (auto simp: rounding_def binary32_def)

section \<open>Properties of the error norm\<close>

subsection \<open>Sums of squares\<close>

lemma sqrt_le_fmax:
  assumes "1 \<le> m" "x \<le> m"
  shows "sqrt x \<le> m"
proof -
  have "m * 1 \<le> m * m"
    using assms(1) by (intro mult_left_mono) auto
  then have "x \<le> m\<^sup>2"
    using assms(2) by (simp add: power2_eq_square)
  then show ?thesis
    using assms(1) by (intro real_le_lsqrt) auto
qed

lemma sum_squares_nonneg: "0 \<le> (\<Sum>r\<leftarrow>rs. r * r)" for rs :: "real list"
  by (rule sum_list_nonneg) auto

lemma div_size_le:
  assumes "0 \<le> (s::real)" "1 \<le> n"
  shows "s / n \<le> s"
proof -
  have "s * 1 \<le> s * n"
    using assms by (intro mult_left_mono) auto
  then show ?thesis
    using assms(2) by (simp add: divide_le_eq)
qed

lemma squares_boxed:
  "map (\<lambda>v. fmul F v v) (map Fin rs) = map (box F) (map (\<lambda>r. r * r) rs)"
  by simp

lemma singleton_in_subseqs: "y \<in> set xs \<Longrightarrow> [y] \<in> set (subseqs xs)"
proof (induction xs)
  case Nil
  then show ?case by simp
next
  case (Cons x xs)
  have "[] \<in> set (subseqs xs)" using take_in_subseqs [of 0 xs] by simp
  with Cons show ?case by (auto simp: Let_def)
qed

subsection \<open>The value of the norm\<close>

lemma rms_norm_zero:
  assumes "rounding F" "real (length rs) \<le> fmax F" "\<forall>r\<in>set rs. r = 0"
  shows "rms_norm F (map Fin rs) = Fin 0"
proof (cases "rs = []")
  case True
  then show ?thesis by (simp add: rms_norm_def)
next
  case False
  then have n: "1 \<le> length rs" by (cases rs) auto
  from box_size [OF assms(1) n assms(2)] obtain q where
    q: "1 \<le> q" "box F (real (length rs)) = Fin q" by blast
  have "\<forall>x\<in>set (map (\<lambda>v. fmul F v v) (map Fin rs)). x = Fin 0"
    using assms(3) by (auto simp: box_zero [OF assms(1)])
  then have "fold (\<lambda>v s. fadd F s v) (map (\<lambda>v. fmul F v v) (map Fin rs)) (Fin 0) = Fin 0"
    by (rule fold_fadd_zero [OF assms(1)])
  then have "fmean F (map (\<lambda>v. fmul F v v) (map Fin rs)) = Fin 0"
    unfolding fmean_def using q by (simp add: box_zero [OF assms(1)])
  then show ?thesis
    using False by (simp add: rms_norm_def Let_def)
qed

lemma rms_norm_exact:
  assumes F: "rounding F" and ne: "rs \<noteq> []"
    and sub: "\<forall>ys\<in>set (subseqs (map (\<lambda>r. r * r) rs)). rnd F (sum_list ys) = sum_list ys"
    and S: "(\<Sum>r\<leftarrow>rs. r * r) \<le> fmax F"
    and n: "rnd F (real (length rs)) = real (length rs)" "real (length rs) \<le> fmax F"
    and m: "rnd F ((\<Sum>r\<leftarrow>rs. r * r) / real (length rs)) = (\<Sum>r\<leftarrow>rs. r * r) / real (length rs)"
    and r: "rnd F (sqrt ((\<Sum>r\<leftarrow>rs. r * r) / real (length rs)))
              = sqrt ((\<Sum>r\<leftarrow>rs. r * r) / real (length rs))"
  shows "rms_norm F (map Fin rs) = Fin (sqrt ((\<Sum>r\<leftarrow>rs. r * r) / real (length rs)))"
proof -
  let ?sq = "map (\<lambda>r. r * r) rs"
  let ?S = "\<Sum>r\<leftarrow>rs. r * r"
  let ?n = "real (length rs)"
  have fmax1: "1 \<le> fmax F" using F by (simp add: rounding_def)
  have S0: "0 \<le> ?S" by (rule sum_squares_nonneg)
  have n1: "1 \<le> ?n" using ne by (cases rs) auto
  have single: "rnd F y = y" if "y \<in> set ?sq" for y
  proof -
    from that have "[y] \<in> set (subseqs ?sq)" by (rule singleton_in_subseqs)
    with sub have "rnd F (sum_list [y]) = sum_list [y]" by blast
    then show ?thesis by simp
  qed
  have pre: "\<forall>k\<le>length ?sq. rnd F (0 + sum_list (take k ?sq)) = 0 + sum_list (take k ?sq)"
    using sub take_in_subseqs [of _ ?sq] by simp
  have "fold (\<lambda>v s. fadd F s v) (map (box F) ?sq) (Fin 0) = Fin (0 + sum_list ?sq)"
    using S single pre by (intro fold_fadd_exact [OF F]) auto
  then have total: "fold (\<lambda>v s. fadd F s v) (map (\<lambda>v. fmul F v v) (map Fin rs)) (Fin 0) = Fin ?S"
    unfolding squares_boxed by simp
  have size: "box F ?n = Fin ?n"
    using n n1 by (intro box_exact [OF F]) auto
  have mle: "?S / ?n \<le> ?S" using S0 n1 by (rule div_size_le)
  have m0: "0 \<le> ?S / ?n" using S0 by simp
  have "box F (?S / ?n) = Fin (?S / ?n)"
    using m m0 mle S by (intro box_exact [OF F]) auto
  then have mean: "fmean F (map (\<lambda>v. fmul F v v) (map Fin rs)) = Fin (?S / ?n)"
    unfolding fmean_def total using size n1 ne by simp
  have "sqrt (?S / ?n) \<le> fmax F"
    using mle S by (intro sqrt_le_fmax [OF fmax1]) auto
  then have root: "box F (sqrt (?S / ?n)) = Fin (sqrt (?S / ?n))"
    using r m0 by (intro box_exact [OF F]) auto
  have "\<not> ?S / ?n < 0" using m0 by simp
  then show ?thesis
    unfolding rms_norm_root [OF F ne] mean using root by simp
qed

text \<open>
  C8, as amended. In a floating-point format with a rounding, on a vector of finite
  values (whose number of elements is within the range of the format), \<^verbatim>\<open>_rms_norm\<close>
  returns exactly \<open>0\<close> when the vector is empty or all its elements are zero. Its result
  is never NaN and never negative: it is a non-negative finite value or the positive
  infinity. On a non-empty vector it is the floating-point evaluation of
  \<open>sqrt (mean (x * x))\<close> (the selection on a zero mean does not change the value). It
  is exactly \<open>sqrt (mean (x * x))\<close> when no operation rounds and the sum of the squares
  is within the range: when the sum of every sub-collection of the squares, the number of
  elements, the mean and its root are values of the format.
\<close>

theorem rms_norm_finite_inputs:
  assumes "rounding F" and "real (length rs) \<le> fmax F"
  shows "(rs = [] \<or> (\<forall>r\<in>set rs. r = 0) \<longrightarrow> rms_norm F (map Fin rs) = Fin 0) \<and>
         (rms_norm F (map Fin rs) = PInf \<or> (\<exists>r. 0 \<le> r \<and> rms_norm F (map Fin rs) = Fin r)) \<and>
         (rs \<noteq> [] \<longrightarrow>
            rms_norm F (map Fin rs) = fsqrt F (fmean F (map (\<lambda>v. fmul F v v) (map Fin rs)))) \<and>
         (rs \<noteq> [] \<and>
          (\<forall>ys\<in>set (subseqs (map (\<lambda>r. r * r) rs)). rnd F (sum_list ys) = sum_list ys) \<and>
          (\<Sum>r\<leftarrow>rs. r * r) \<le> fmax F \<and>
          rnd F (real (length rs)) = real (length rs) \<and>
          rnd F ((\<Sum>r\<leftarrow>rs. r * r) / real (length rs)) = (\<Sum>r\<leftarrow>rs. r * r) / real (length rs) \<and>
          rnd F (sqrt ((\<Sum>r\<leftarrow>rs. r * r) / real (length rs)))
            = sqrt ((\<Sum>r\<leftarrow>rs. r * r) / real (length rs))
            \<longrightarrow> rms_norm F (map Fin rs) = Fin (sqrt ((\<Sum>r\<leftarrow>rs. r * r) / real (length rs))))"
proof -
  have A: "rms_norm F (map Fin rs) = Fin 0" if "rs = [] \<or> (\<forall>r\<in>set rs. r = 0)"
  proof (cases "rs = []")
    case True
    then show ?thesis by (simp add: rms_norm_def)
  next
    case False
    with that have "\<forall>r\<in>set rs. r = 0" by simp
    then show ?thesis by (rule rms_norm_zero [OF assms])
  qed
  have B: "fnonneg (rms_norm F (map Fin rs))"
  proof (cases "rs = []")
    case True
    then show ?thesis by (simp add: rms_norm_def fnonneg_def)
  next
    case False
    from fmean_squares_nonneg [OF assms(1) False assms(2)]
    show ?thesis
      unfolding rms_norm_root [OF assms(1) False] by (rule fsqrt_nonneg [OF assms(1)])
  qed
  have C: "rms_norm F (map Fin rs) = fsqrt F (fmean F (map (\<lambda>v. fmul F v v) (map Fin rs)))"
    if "rs \<noteq> []"
    using assms(1) that by (rule rms_norm_root)
  have D: "rms_norm F (map Fin rs) = Fin (sqrt ((\<Sum>r\<leftarrow>rs. r * r) / real (length rs)))"
    if "rs \<noteq> [] \<and>
          (\<forall>ys\<in>set (subseqs (map (\<lambda>r. r * r) rs)). rnd F (sum_list ys) = sum_list ys) \<and>
          (\<Sum>r\<leftarrow>rs. r * r) \<le> fmax F \<and>
          rnd F (real (length rs)) = real (length rs) \<and>
          rnd F ((\<Sum>r\<leftarrow>rs. r * r) / real (length rs)) = (\<Sum>r\<leftarrow>rs. r * r) / real (length rs) \<and>
          rnd F (sqrt ((\<Sum>r\<leftarrow>rs. r * r) / real (length rs)))
            = sqrt ((\<Sum>r\<leftarrow>rs. r * r) / real (length rs))"
    using that assms by (intro rms_norm_exact) auto
  from A B [unfolded fnonneg_cases] C D show ?thesis by blast
qed

text \<open>
  C8, witness: in the range of binary32 the vector \<open>[0, 0]\<close> has the norm \<open>0\<close> and the
  vector \<open>[2, -2, 2, -2]\<close> the norm \<open>2\<close>.
\<close>

theorem rms_norm_finite_inputs_witness:
  "rounding binary32 \<and> real (length [2, - 2, 2, - 2 :: real]) \<le> fmax binary32 \<and>
   rms_norm binary32 [Fin 0, Fin 0] = Fin 0 \<and>
   rms_norm binary32 [Fin 2, Fin (- 2), Fin 2, Fin (- 2)] = Fin 2"
proof -
  have n: "real (length [2, - 2, 2, - 2 :: real]) \<le> fmax binary32"
    and n0: "real (length [0, 0 :: real]) \<le> fmax binary32"
    by (simp_all add: binary32_def)
  have e: "[2, - 2, 2, - 2 :: real] \<noteq> [] \<and>
          (\<forall>ys\<in>set (subseqs (map (\<lambda>r. r * r) [2, - 2, 2, - 2 :: real])).
              rnd binary32 (sum_list ys) = sum_list ys) \<and>
          (\<Sum>r\<leftarrow>[2, - 2, 2, - 2 :: real]. r * r) \<le> fmax binary32 \<and>
          rnd binary32 (real (length [2, - 2, 2, - 2 :: real])) = real (length [2, - 2, 2, - 2 :: real]) \<and>
          rnd binary32 ((\<Sum>r\<leftarrow>[2, - 2, 2, - 2 :: real]. r * r) / real (length [2, - 2, 2, - 2 :: real]))
            = (\<Sum>r\<leftarrow>[2, - 2, 2, - 2 :: real]. r * r) / real (length [2, - 2, 2, - 2 :: real]) \<and>
          rnd binary32 (sqrt ((\<Sum>r\<leftarrow>[2, - 2, 2, - 2 :: real]. r * r) / real (length [2, - 2, 2, - 2 :: real])))
            = sqrt ((\<Sum>r\<leftarrow>[2, - 2, 2, - 2 :: real]. r * r) / real (length [2, - 2, 2, - 2 :: real]))"
    by (simp add: binary32_def Let_def)
  have z: "[0, 0 :: real] = [] \<or> (\<forall>r\<in>set [0, 0 :: real]. r = 0)" by simp
  from rms_norm_finite_inputs [OF binary32_rounding n] e
  have "rms_norm binary32 (map Fin [2, - 2, 2, - 2])
      = Fin (sqrt ((\<Sum>r\<leftarrow>[2, - 2, 2, - 2 :: real]. r * r) / real (length [2, - 2, 2, - 2 :: real])))"
    by blast
  then have a: "rms_norm binary32 [Fin 2, Fin (- 2), Fin 2, Fin (- 2)] = Fin 2"
    by simp
  from rms_norm_finite_inputs [OF binary32_rounding n0] z
  have "rms_norm binary32 (map Fin [0, 0]) = Fin 0"
    by blast
  then have b: "rms_norm binary32 [Fin 0, Fin 0] = Fin 0"
    by simp
  from a b binary32_rounding n show ?thesis by blast
qed

text \<open>
  C8, counterexample: in binary32 the one-element vector \<open>[2 ^ 64]\<close> is finite and its
  norm is the positive infinity, since \<^verbatim>\<open>x ** 2\<close> overflows ("the result is always
  finite"); the one-element vector \<open>[2 ^ -80]\<close> is not zero and its norm is \<open>0\<close>, not
  \<open>2 ^ -80\<close>, since \<^verbatim>\<open>x ** 2\<close> underflows ("for every other finite input returns
  \<open>sqrt(mean(x\<^sup>2))\<close>").
\<close>

theorem rms_norm_range_counterexample:
  "(2::real) ^ 64 \<le> fmax binary32 \<and> rms_norm binary32 [Fin (2 ^ 64)] = PInf \<and>
   (1 / 2 ^ 80 :: real) \<noteq> 0 \<and> rms_norm binary32 [Fin (1 / 2 ^ 80)] = Fin 0"
  by (simp add: rms_norm_def fmean_def box_def binary32_def)

section \<open>Properties of the grid clippers\<close>

subsection \<open>The ordered search\<close>

lemma searchsorted_le_length: "searchsorted xs v \<le> length xs"
  by (induction xs) auto

lemma searchsorted_nth: "searchsorted xs v < length xs \<Longrightarrow> v \<le> xs ! searchsorted xs v"
  by (induction xs) (auto split: if_splits)

lemma searchsorted_least: "i < length xs \<Longrightarrow> v \<le> xs ! i \<Longrightarrow> searchsorted xs v \<le> i"
proof (induction xs arbitrary: i)
  case Nil
  then show ?case by simp
next
  case (Cons a xs)
  then show ?case by (cases i) (auto split: if_splits)
qed

lemma searchsorted_own:
  "searchsorted xs (xs ! searchsorted xs v) \<le> searchsorted xs v" if "searchsorted xs v < length xs"
  using that by (intro searchsorted_least) auto

lemma searchsorted_at_member:
  "sorted xs \<Longrightarrow> v \<in> set xs \<Longrightarrow> searchsorted xs v < length xs \<and> xs ! searchsorted xs v = v"
proof (induction xs)
  case Nil
  then show ?case by simp
next
  case (Cons a xs)
  show ?case
  proof (cases "a < v")
    case True
    with Cons.prems have "v \<in> set xs" "sorted xs" by auto
    with Cons.IH True show ?thesis by simp
  next
    case False
    with Cons.prems have "a = v" by auto
    then show ?thesis by simp
  qed
qed

lemma searchsorted_gt:
  "searchsorted xs v < length xs \<Longrightarrow> xs ! searchsorted xs v < w \<Longrightarrow>
   searchsorted xs v < searchsorted xs w"
proof (induction xs)
  case Nil
  then show ?case by simp
next
  case (Cons a xs)
  show ?case
  proof (cases "a < v")
    case True
    with Cons.prems have i: "searchsorted xs v < length xs" "xs ! searchsorted xs v < w"
      by auto
    from searchsorted_nth [OF i(1)] i(2) True have "a < w" by simp
    with Cons.IH [OF i] True show ?thesis by simp
  next
    case False
    with Cons.prems show ?thesis by simp
  qed
qed

lemma searchsorted_before: "i < searchsorted xs v \<Longrightarrow> xs ! i < v"
proof (induction xs arbitrary: i)
  case Nil
  then show ?case by simp
next
  case (Cons a xs)
  then show ?case by (cases i) (auto split: if_splits)
qed

lemma getitem_clamped:
  "xs \<noteq> [] \<Longrightarrow> getitem xs (min (int i) (int (length xs) - 1)) = Inr (xs ! min i (length xs - 1))"
proof -
  assume ne: "xs \<noteq> []"
  then have pos: "0 < length xs" by simp
  have "nat (max 0 (min (min (int i) (int (length xs) - 1)) (int (length xs) - 1)))
      = min i (length xs - 1)"
    using pos by (simp add: min_def max_def; linarith)
  moreover have "\<not> min (int i) (int (length xs) - 1) < 0"
    using pos by (simp add: min_def)
  ultimately show ?thesis
    using ne by (simp add: getitem_def Let_def)
qed

subsection \<open>The step grid\<close>

lemma clip_grids_None:
  assumes "step_ts self = None" "jump_ts self = None"
  shows "clip_step_ts self a c = Inr c" "clip_jump_ts self M b a c = Inr (c, False)"
  using assms by (simp_all add: clip_step_ts_def clip_jump_ts_def)

lemma clip_step_ts_Some:
  assumes "step_ts self = Some sts" "clip_step_ts self t0 t = Inr t1"
  shows "\<not> unvmap_dt self \<and> elems sts \<noteq> [] \<and>
         t1 = (if searchsorted (elems sts) t0 < searchsorted (elems sts) t
               then elems sts ! searchsorted (elems sts) t0 else t)"
proof -
  from assms have nl: "\<not> unvmap_dt self"
    by (auto simp: clip_step_ts_def split: if_splits)
  from assms nl have ne: "elems sts \<noteq> []"
    by (auto simp: clip_step_ts_def getitem_def Let_def split: if_splits)
  have le: "searchsorted (elems sts) t \<le> length (elems sts)"
    by (rule searchsorted_le_length)
  have "clip_step_ts self t0 t =
      Inr (if searchsorted (elems sts) t0 < searchsorted (elems sts) t
           then elems sts ! min (searchsorted (elems sts) t0) (length (elems sts) - 1) else t)"
    using assms(1) nl by (simp add: clip_step_ts_def Let_def getitem_clamped [OF ne])
  moreover have "searchsorted (elems sts) t0 < searchsorted (elems sts) t \<Longrightarrow>
      min (searchsorted (elems sts) t0) (length (elems sts) - 1) = searchsorted (elems sts) t0"
    using le by simp
  ultimately show ?thesis
    using assms(2) nl ne by auto
qed

text \<open>
  On an ascending step grid the clip never returns an end beyond a grid time that is at
  or after \<open>t0\<close>.
\<close>

lemma clip_step_ts_bounded:
  assumes "step_ts self = Some sts" "sorted (elems sts)" "s \<in> set (elems sts)" "t0 \<le> s"
    and "clip_step_ts self t0 t1 = Inr r"
  shows "r \<le> s"
proof -
  let ?xs = "elems sts"
  let ?i0 = "searchsorted ?xs t0"
  let ?i1 = "searchsorted ?xs t1"
  from assms(3) obtain j where j: "j < length ?xs" "?xs ! j = s"
    by (auto simp: in_set_conv_nth)
  have i0: "?i0 \<le> j"
    using j assms(4) by (intro searchsorted_least) auto
  from clip_step_ts_Some [OF assms(1,5)]
  have r: "r = (if ?i0 < ?i1 then ?xs ! ?i0 else t1)" by simp
  show ?thesis
  proof (cases "?i0 < ?i1")
    case True
    have "?xs ! ?i0 \<le> ?xs ! j"
      using assms(2) i0 j(1) by (rule sorted_nth_mono)
    with True r j(2) show ?thesis by simp
  next
    case False
    then have i1: "?i1 \<le> j" "?i1 < length ?xs"
      using i0 j(1) by auto
    have "t1 \<le> ?xs ! ?i1"
      using i1(2) by (rule searchsorted_nth)
    also have "\<dots> \<le> ?xs ! j"
      using assms(2) i1(1) j(1) by (rule sorted_nth_mono)
    finally show ?thesis using False r j(2) by simp
  qed
qed

text \<open>The clip never moves the end of the interval forward.\<close>

lemma clip_step_ts_le:
  assumes "clip_step_ts self t0 t = Inr r"
  shows "r \<le> t"
proof (cases "step_ts self")
  case None
  with assms show ?thesis by (simp add: clip_step_ts_def)
next
  case (Some sts)
  from clip_step_ts_Some [OF Some assms]
  have r: "r = (if searchsorted (elems sts) t0 < searchsorted (elems sts) t
               then elems sts ! searchsorted (elems sts) t0 else t)" by simp
  show ?thesis
  proof (cases "searchsorted (elems sts) t0 < searchsorted (elems sts) t")
    case True
    from searchsorted_before [OF True] r True show ?thesis by simp
  next
    case False
    with r show ?thesis by simp
  qed
qed

text \<open>
  An interval that starts on a time of an ascending step grid is clamped to its own
  start.
\<close>

lemma clip_step_ts_from_grid_time:
  assumes "step_ts self = Some sts" "\<not> unvmap_dt self" "sorted (elems sts)"
    and "t0 \<in> set (elems sts)" "t0 < t1"
  shows "clip_step_ts self t0 t1 = Inr t0"
proof -
  let ?xs = "elems sts"
  from searchsorted_at_member [OF assms(3,4)]
  have i: "searchsorted ?xs t0 < length ?xs" "?xs ! searchsorted ?xs t0 = t0" by auto
  then have lt: "searchsorted ?xs t0 < searchsorted ?xs t1"
    using assms(5) by (intro searchsorted_gt) auto
  have ne: "?xs \<noteq> []" using assms(4) by auto
  have "min (searchsorted ?xs t0) (length ?xs - 1) = searchsorted ?xs t0"
    using i(1) by simp
  then show ?thesis
    using assms(1,2) lt i(2) by (simp add: clip_step_ts_def Let_def getitem_clamped [OF ne])
qed

text \<open>
  C2. With \<^verbatim>\<open>step_ts = [1.0, 2.0, 5.0]\<close> the interval from \<open>0.5\<close> with \<open>3.0\<close> proposed
  is clamped to \<open>1.0\<close>. The following interval, from \<open>1.0\<close> with \<open>3.0\<close> proposed, is
  clamped to \<open>1.0\<close> again and not to \<open>2.0\<close>: the search with \<^verbatim>\<open>side='left'\<close> finds the
  grid time \<open>t0\<close> itself, and the interval returned is empty.
\<close>

theorem clip_step_ts_stuck_on_grid:
  "clip_step_ts (self\<lparr>unvmap_dt := False, step_ts := Some \<lparr>inexact = True, elems = [1, 2, 5]\<rparr>\<rparr>)
      (1 / 2) 3 = Inr 1 \<and>
   clip_step_ts (self\<lparr>unvmap_dt := False, step_ts := Some \<lparr>inexact = True, elems = [1, 2, 5]\<rparr>\<rparr>)
      1 3 = Inr 1"
  by (simp add: clip_step_ts_def getitem_def)

subsection \<open>The jump grid\<close>

text \<open>
  With an ascending step grid, after the step clip the jump clip never finds a time of
  \<^verbatim>\<open>self.step_ts\<close> inside the interval: it returns the end it was given, and no flag.
\<close>

lemma no_jump_after_step_clip:
  assumes "clip_step_ts self t0 t = Inr t1" "clip_jump_ts self M b t0 t1 = Inr (t1', jump)"
    and "\<forall>sts. step_ts self = Some sts \<longrightarrow> sorted (elems sts)"
  shows "\<not> jump \<and> t1' = t1"
proof (cases "jump_ts self")
  case None
  with assms(2) show ?thesis by (simp add: clip_jump_ts_def)
next
  case (Some jts)
  with assms(2) obtain sts where sts: "step_ts self = Some sts"
    by (cases "step_ts self") (auto simp: clip_jump_ts_def split: if_splits)
  let ?xs = "elems sts"
  let ?i0 = "searchsorted ?xs t0"
  from clip_step_ts_Some [OF sts assms(1)]
  have t1: "t1 = (if ?i0 < searchsorted ?xs t then ?xs ! ?i0 else t)" by simp
  have "searchsorted ?xs t1 \<le> ?i0"
  proof (cases "?i0 < searchsorted ?xs t")
    case True
    then have "?i0 < length ?xs"
      using searchsorted_le_length [of ?xs t] by simp
    then show ?thesis using t1 True searchsorted_own [of ?xs t0] by simp
  next
    case False
    then show ?thesis using t1 by simp
  qed
  then have "\<not> ?i0 < searchsorted ?xs t1" by simp
  with assms(2) Some sts show ?thesis
    by (auto simp: clip_jump_ts_def Let_def split: if_splits sum.splits)
qed

text \<open>
  A jump flag is raised only for an interval whose end has a floating-point dtype.
\<close>

lemma jump_flag_floating:
  "clip_jump_ts self M b t0 t1 = Inr (r, True) \<Longrightarrow> b"
  by (auto simp: clip_jump_ts_def Let_def split: option.splits if_splits sum.splits)

text \<open>
  C1. \<^verbatim>\<open>_clip_jump_ts\<close> takes both searches and the length from \<^verbatim>\<open>self.step_ts\<close>, not
  from \<^verbatim>\<open>self.jump_ts\<close>. With \<^verbatim>\<open>jump_ts = [3.0]\<close> and \<^verbatim>\<open>step_ts = [1.0, 10.0]\<close>
  the interval from \<open>2.0\<close> to \<open>4.0\<close> contains the discontinuity, and the clip returns
  \<open>4.0\<close> and no jump flag, called directly and from \<^verbatim>\<open>init\<close>; with \<^verbatim>\<open>step_ts\<close> unset
  it raises.
\<close>

theorem clip_jump_ts_searches_step_ts:
  "clip_jump_ts (self\<lparr>unvmap_dt := False, step_ts := Some \<lparr>inexact = True, elems = [1, 10]\<rparr>,
                      jump_ts := Some \<lparr>inexact = True, elems = [3]\<rparr>\<rparr>) M True 2 4 = Inr (4, False) \<and>
   clip_jump_ts (self\<lparr>unvmap_dt := False, step_ts := None,
                      jump_ts := Some \<lparr>inexact = True, elems = [3]\<rparr>\<rparr>) M True 2 4 = Inl TypeError \<and>
   init (self\<lparr>unvmap_dt := False, dtmin := None, dtmax := None,
              step_ts := Some \<lparr>inexact = True, elems = [1, 10]\<rparr>,
              jump_ts := Some \<lparr>inexact = True, elems = [3]\<rparr>\<rparr>) M [] True 2 y0 (Some 2) solver
     = Inr (4, (False, False))"
  by (simp add: clip_jump_ts_def clip_step_ts_def init_def clip_dtmax_def getitem_def)

section \<open>Properties of the controller\<close>

subsection \<open>What a call returns\<close>

lemma adapt_step_size_None:
  "adapt_step_size self M peers b t0 t1 y0 y1 None ord st = Inl ValueError"
  by (simp add: adapt_step_size_def)

text \<open>
  With \<^verbatim>\<open>y_error\<close> present, the call is the two grid clips of the interval from
  \<^verbatim>\<open>next_t0\<close> to \<^verbatim>\<open>next_t0 + dt\<close>.
\<close>

lemma adapt_step_size_Some:
  assumes se: "se = scale_error_estimate ye y0 y1 (rtol self) (atol self) (normf self)"
    and keep: "keep = keep_step_of self peers se (snd st)"
    and dt_b: "dt_b = clip_dtmax self ((t1 - t0) * factor_of self peers ord keep se)"
    and dt: "dt = (case dtmin self of None \<Rightarrow> dt_b | Some mn \<Rightarrow> max dt_b mn)"
    and n0: "n0 = (if keep then (if b \<and> fst st then nextafter M t1 else t1) else t0)"
    and adt: "adt' = (case dtmin self of None \<Rightarrow> False | Some mn \<Rightarrow> dt_b \<le> mn)"
    and res: "res = (case dtmin self of None \<Rightarrow> successful
                | Some mn \<Rightarrow> if \<not> force_dtmin self \<and> dt_b < mn then dt_min_reached else successful)"
  shows "adapt_step_size self M peers b t0 t1 y0 y1 (Some ye) ord st =
     (case clip_step_ts self n0 (n0 + dt) of
        Inl e \<Rightarrow> Inl e
      | Inr s \<Rightarrow>
          (case clip_jump_ts self M True n0 s of
             Inl e \<Rightarrow> Inl e
           | Inr (n1, nmj) \<Rightarrow> Inr (keep, n0, n1, fst st, (nmj, adt'), res)))"
  unfolding adapt_step_size_def Let_def se keep dt_b dt n0 adt res
  by (auto split: sum.splits option.splits)

lemma adapt_step_size_Inr:
  assumes "adapt_step_size self M peers b t0 t1 y0 y1 (Some ye) ord st
             = Inr (keep, n0, n1, mj, (nmj, adt'), res)"
    and "se = scale_error_estimate ye y0 y1 (rtol self) (atol self) (normf self)"
    and "dt_b = clip_dtmax self ((t1 - t0) * factor_of self peers ord keep se)"
    and "dt = (case dtmin self of None \<Rightarrow> dt_b | Some mn \<Rightarrow> max dt_b mn)"
  shows "keep = keep_step_of self peers se (snd st)"
    and "n0 = (if keep then (if b \<and> fst st then nextafter M t1 else t1) else t0)"
    and "mj = fst st"
    and "adt' = (case dtmin self of None \<Rightarrow> False | Some mn \<Rightarrow> dt_b \<le> mn)"
    and "res = (case dtmin self of None \<Rightarrow> successful
                | Some mn \<Rightarrow> if \<not> force_dtmin self \<and> dt_b < mn then dt_min_reached else successful)"
    and "\<exists>s. clip_step_ts self n0 (n0 + dt) = Inr s \<and> clip_jump_ts self M True n0 s = Inr (n1, nmj)"
proof -
  from assms(1) show k: "keep = keep_step_of self peers se (snd st)"
    unfolding adapt_step_size_def assms(2) Let_def
    by (auto split: sum.splits)
  from assms(1) show "n0 = (if keep then (if b \<and> fst st then nextafter M t1 else t1) else t0)"
    unfolding adapt_step_size_def k assms(2) Let_def
    by (auto split: sum.splits)
  from assms(1) show "mj = fst st"
    unfolding adapt_step_size_def Let_def
    by (auto split: sum.splits)
  from assms(1) show "adt' = (case dtmin self of None \<Rightarrow> False | Some mn \<Rightarrow> dt_b \<le> mn)"
    unfolding adapt_step_size_def assms(2,3) k Let_def
    by (auto split: sum.splits)
  from assms(1) show "res = (case dtmin self of None \<Rightarrow> successful
                | Some mn \<Rightarrow> if \<not> force_dtmin self \<and> dt_b < mn then dt_min_reached else successful)"
    unfolding adapt_step_size_def assms(2,3) k Let_def
    by (auto split: sum.splits)
  from assms(1) show "\<exists>s. clip_step_ts self n0 (n0 + dt) = Inr s \<and> clip_jump_ts self M True n0 s = Inr (n1, nmj)"
    unfolding adapt_step_size_def assms(2,3,4) k Let_def
    by (auto split: sum.splits)
qed

text \<open>
  With an ascending step grid, neither \<^verbatim>\<open>init\<close> nor \<^verbatim>\<open>adapt_step_size\<close> returns a
  raised jump flag, since both clip to the step grid first.
\<close>

lemma jump_flag_never_raised:
  assumes asc: "\<forall>sts. step_ts self = Some sts \<longrightarrow> sorted (elems sts)"
  shows "(init self M pd b t0 y0 dt0 solver = Inr (t1', (jump, a)) \<longrightarrow> \<not> jump) \<and>
   (adapt_step_size self M peers b t0 t1 y0 y1 ye ord st
      = Inr (keep_step, n0, n1, mj, (nmj, a'), res) \<longrightarrow> \<not> nmj)"
proof -
  have A: "\<not> jump" if r: "init self M pd b t0 y0 dt0 solver = Inr (t1', (jump, a))"
  proof -
    from r obtain c s b' where "clip_step_ts self t0 c = Inr s"
      "clip_jump_ts self M b' t0 s = Inr (t1', jump)"
      unfolding init_def Let_def by (auto split: sum.splits)
    then show ?thesis using no_jump_after_step_clip asc by blast
  qed
  have B: "\<not> nmj" if r: "adapt_step_size self M peers b t0 t1 y0 y1 ye ord st
      = Inr (keep_step, n0, n1, mj, (nmj, a'), res)"
  proof (cases ye)
    case None
    with r show ?thesis by (simp add: adapt_step_size_None)
  next
    case (Some e)
    from adapt_step_size_Inr(6) [OF r [unfolded Some] refl refl refl]
    show ?thesis using no_jump_after_step_clip asc by blast
  qed
  from A B show ?thesis by blast
qed

subsection \<open>Accepting and rejecting a step\<close>

lemma lane_keep_step_iff:
  "lane_keep_step self se adt \<longleftrightarrow> se < 1 \<or> (dtmin self \<noteq> None \<and> adt)"
  by (auto simp: lane_keep_step_def)

lemma keep_step_of_iff:
  "keep_step_of self peers se adt \<longleftrightarrow>
     (se < 1 \<or> (dtmin self \<noteq> None \<and> adt)) \<and>
     (unvmap_dt self \<longrightarrow> (\<forall>p\<in>set peers. p_scaled_error p < 1 \<or> (dtmin self \<noteq> None \<and> p_at_dtmin p)))"
  by (auto simp: keep_step_of_def unvmap_all_def lane_keep_step_iff list_all_iff)

text \<open>
  C4, as amended. In \<^verbatim>\<open>adapt_step_size\<close> a lane's own decision is: the scaled error is
  below \<open>1\<close>, or \<^verbatim>\<open>dtmin\<close> is configured and the incoming \<^verbatim>\<open>at_dtmin\<close> is true. Without
  the lockstep flag \<^verbatim>\<open>keep_step\<close> is that decision; with the flag it is the
  conjunction of the decisions of all lanes of the batch.
\<close>

theorem keep_step_rule:
  assumes "adapt_step_size self M peers b t0 t1 y0 y1 (Some ye) ord (made_jump, at_dtmin)
             = Inr (keep_step, rest)"
    and "se = scale_error_estimate ye y0 y1 (rtol self) (atol self) (normf self)"
  shows "keep_step \<longleftrightarrow>
     (se < 1 \<or> (dtmin self \<noteq> None \<and> at_dtmin)) \<and>
     (unvmap_dt self \<longrightarrow>
        (\<forall>p\<in>set peers. p_scaled_error p < 1 \<or> (dtmin self \<noteq> None \<and> p_at_dtmin p)))"
proof -
  obtain n0 n1 mj nmj adt' res where "rest = (n0, n1, mj, (nmj, adt'), res)"
    by (metis prod.exhaust)
  with assms have "keep_step = keep_step_of self peers se (snd (made_jump, at_dtmin))"
    by (intro adapt_step_size_Inr(1)) auto
  then show ?thesis
    by (simp add: keep_step_of_iff)
qed

text \<open>
  C4, witness: a call with scaled error \<open>1/2\<close>, without lockstep, keeps the step.
\<close>

theorem keep_step_rule_witness:
  "adapt_step_size default_controller binary64_misc [] True 0 1 [0] [0]
      (Some [1 / (2 * 10 ^ 6)]) 1 (False, False)
     = Inr (True, 1, 14 / 5, False, (False, False), successful) \<and>
   scale_error_estimate [1 / (2 * 10 ^ 6)] [0] [0]
      (rtol default_controller) (atol default_controller) (normf default_controller) = 1 / 2"
proof -
  have ev: "adapt_step_size default_controller binary64_misc [] True 0 1 [0] [0]
      (Some [1 / (2 * 10 ^ 6)]) 1 (False, False)
     = Inr (True, 1, 14 / 5, False, (False, False), successful)"
    by (simp add: controller_defs)
  from keep_step_rule [OF ev refl] ev show ?thesis
    by (simp add: controller_defs)
qed

text \<open>
  C4, counterexample: in lockstep mode, a lane with scaled error \<open>1/2\<close> whose peer has
  the scaled error \<open>2\<close> does not keep its step.
\<close>

theorem keep_step_lockstep_counterexample:
  "scale_error_estimate [1 / (2 * 10 ^ 6)] [0] [0]
      (rtol default_controller) (atol default_controller) (normf default_controller) = 1 / 2 \<and>
   adapt_step_size (default_controller\<lparr>unvmap_dt := True\<rparr>) binary64_misc
      [\<lparr>p_scaled_error = 2, p_at_dtmin = False\<rparr>] True 0 1 [0] [0] (Some [1 / (2 * 10 ^ 6)]) 1
      (False, False)
    = Inr (False, 0, 9 / 20, False, (False, False), successful)"
  by (simp add: default_controller_def scale_error_estimate_def l1_norm_def adapt_step_size_def
      keep_step_of_def factor_of_def lane_keep_step_def lane_factor_def scale_factor_def clip_def
      unvmap_all_def unvmap_min_def clip_dtmax_def clip_step_ts_def clip_jump_ts_def)

subsection \<open>The step size multiplier\<close>

lemma lane_factor_eq:
  "lane_factor self ord keep se =
     (if se = 0 then ifactor self
      else min (ifactor self)
             (max (if keep then 1 else dfactor self) (safety self / se powr (1 / real ord))))"
  by (simp add: lane_factor_def scale_factor_def clip_def Let_def)

lemma unvmap_min_Min: "unvmap_min xs a = Min (insert a (set xs))"
  using Min.set_eq_fold [of a xs] by (simp add: unvmap_min_def)

lemma factor_of_eq:
  "factor_of self peers ord keep se =
     (if unvmap_dt self
      then Min (insert (lane_factor self ord keep se)
                  ((\<lambda>p. lane_factor self ord keep (p_scaled_error p)) ` set peers))
      else lane_factor self ord keep se)"
  by (simp add: factor_of_def Let_def unvmap_min_Min)

lemma lane_factor_lower:
  assumes "dfactor self \<le> ifactor self"
  shows "dfactor self \<le> lane_factor self ord False x"
  using assms by (simp add: lane_factor_eq)

lemma lane_factor_upper:
  assumes "1 \<le> se" "safety self \<le> 1" "dfactor self \<le> 1"
  shows "lane_factor self ord False se \<le> 1"
proof -
  have p: "1 \<le> se powr (1 / real ord)"
    using assms(1) by (intro ge_one_powr_ge_zero) auto
  then have "safety self \<le> se powr (1 / real ord)"
    using assms(2) by simp
  then have "safety self / se powr (1 / real ord) \<le> 1"
    using p by (simp add: divide_le_eq_1)
  then have "max (dfactor self) (safety self / se powr (1 / real ord)) \<le> 1"
    using assms(3) by simp
  then show ?thesis
    using assms(1) by (simp add: lane_factor_eq min_le_iff_disj)
qed

lemma factor_of_bounds:
  assumes "1 \<le> se" "safety self \<le> 1" "dfactor self \<le> 1" "dfactor self \<le> ifactor self"
  shows "dfactor self \<le> factor_of self peers ord False se"
    and "factor_of self peers ord False se \<le> 1"
proof -
  let ?S = "insert (lane_factor self ord False se)
              ((\<lambda>p. lane_factor self ord False (p_scaled_error p)) ` set peers)"
  have fin: "finite ?S" "?S \<noteq> {}" by auto
  have "\<forall>x\<in>?S. dfactor self \<le> x"
    using lane_factor_lower [OF assms(4)] by auto
  then have lo: "dfactor self \<le> Min ?S"
    using fin Min_ge_iff [of ?S "dfactor self"] by blast
  have up: "lane_factor self ord False se \<le> 1"
    by (rule lane_factor_upper [OF assms(1,2,3)])
  have "Min ?S \<le> lane_factor self ord False se"
    using fin by (intro Min_le) auto
  from this up have hi: "Min ?S \<le> 1"
    by (rule order_trans)
  show "dfactor self \<le> factor_of self peers ord False se"
    unfolding factor_of_eq using lo lane_factor_lower [OF assms(4), of ord se] by presburger
  show "factor_of self peers ord False se \<le> 1"
    unfolding factor_of_eq using hi up by presburger
qed

text \<open>
  C3, as amended. In \<^verbatim>\<open>adapt_step_size\<close> a lane's own multiplier is \<^verbatim>\<open>ifactor\<close> when
  its scaled error is \<open>0\<close>, and otherwise \<open>safety / scaled_error ^ (1 / order)\<close> clipped
  to the range from \<open>low\<close> to \<^verbatim>\<open>ifactor\<close>, with \<open>low = 1\<close> when the step is kept and
  \<open>low = dfactor\<close> when it is rejected. Without the lockstep flag the factor applied to
  the step size is that multiplier; with the flag it is the minimum of the multipliers
  of all lanes. With no step size bounds and no grids, the next interval has the length
  of the previous one times the factor. For a configuration with \<open>safety \<le> 1\<close>,
  \<open>dfactor \<le> 1\<close> and \<open>dfactor \<le> ifactor\<close> and a solver of positive order, a call with
  scaled error at least \<open>1\<close> and incoming \<^verbatim>\<open>at_dtmin\<close> false rejects the step and applies
  a factor between \<^verbatim>\<open>dfactor\<close> and \<open>1\<close>.
\<close>

theorem step_size_factor_rule:
  assumes ret: "adapt_step_size self M peers b t0 t1 y0 y1 (Some ye) ord (made_jump, at_dtmin)
             = Inr (keep_step, n0, n1, mj, st', res)"
    and se: "se = scale_error_estimate ye y0 y1 (rtol self) (atol self) (normf self)"
    and factor: "factor = factor_of self peers ord keep_step se"
  shows "lane_factor self ord keep_step se =
           (if se = 0 then ifactor self
            else min (ifactor self)
                   (max (if keep_step then 1 else dfactor self)
                      (safety self / se powr (1 / real ord)))) \<and>
         factor =
           (if unvmap_dt self
            then Min (insert (lane_factor self ord keep_step se)
                        ((\<lambda>p. lane_factor self ord keep_step (p_scaled_error p)) ` set peers))
            else lane_factor self ord keep_step se) \<and>
         (dtmin self = None \<and> dtmax self = None \<and> step_ts self = None \<and> jump_ts self = None
            \<longrightarrow> n1 = n0 + (t1 - t0) * factor) \<and>
         (1 \<le> se \<and> \<not> at_dtmin \<and> 0 < ord \<and>
          safety self \<le> 1 \<and> dfactor self \<le> 1 \<and> dfactor self \<le> ifactor self
            \<longrightarrow> \<not> keep_step \<and> dfactor self \<le> factor \<and> factor \<le> 1)"
proof -
  obtain nmj adt' where st': "st' = (nmj, adt')" by (cases st')
  note parts = adapt_step_size_Inr [OF ret [unfolded st'] se refl refl]
  have keep: "keep_step = keep_step_of self peers se at_dtmin"
    using parts(1) by simp
  have A: "lane_factor self ord keep_step se =
           (if se = 0 then ifactor self
            else min (ifactor self)
                   (max (if keep_step then 1 else dfactor self)
                      (safety self / se powr (1 / real ord))))"
    by (rule lane_factor_eq)
  have B: "factor =
           (if unvmap_dt self
            then Min (insert (lane_factor self ord keep_step se)
                        ((\<lambda>p. lane_factor self ord keep_step (p_scaled_error p)) ` set peers))
            else lane_factor self ord keep_step se)"
    unfolding factor by (rule factor_of_eq)
  have C: "n1 = n0 + (t1 - t0) * factor"
    if "dtmin self = None \<and> dtmax self = None \<and> step_ts self = None \<and> jump_ts self = None"
  proof -
    from parts(6) obtain s where
      s: "clip_step_ts self n0 (n0 + (case dtmin self of None \<Rightarrow> clip_dtmax self ((t1 - t0) * factor)
             | Some mn \<Rightarrow> max (clip_dtmax self ((t1 - t0) * factor)) mn)) = Inr s"
        "clip_jump_ts self M True n0 s = Inr (n1, nmj)"
      unfolding factor by blast
    from s that show ?thesis
      by (simp add: clip_grids_None clip_dtmax_def)
  qed
  have D: "\<not> keep_step \<and> dfactor self \<le> factor \<and> factor \<le> 1"
    if h: "1 \<le> se \<and> \<not> at_dtmin \<and> 0 < ord \<and>
          safety self \<le> 1 \<and> dfactor self \<le> 1 \<and> dfactor self \<le> ifactor self"
  proof -
    from h have nk: "\<not> keep_step"
      unfolding keep keep_step_of_iff by simp
    from h show ?thesis
      unfolding factor using nk factor_of_bounds [of se self peers ord] by simp
  qed
  from A B C D show ?thesis by blast
qed

text \<open>
  C3, witness: a call with scaled error \<open>2\<close> is rejected, and its factor is \<open>9/20\<close>.
\<close>

theorem step_size_factor_rule_witness:
  "adapt_step_size default_controller binary64_misc [] True 0 1 [0] [0]
      (Some [2 / 10 ^ 6]) 1 (False, False)
     = Inr (False, 0, 9 / 20, False, (False, False), successful) \<and>
   factor_of default_controller [] 1 False 2 = 9 / 20 \<and>
   dfactor default_controller \<le> 9 / 20 \<and> (9 / 20 :: real) \<le> 1"
proof -
  have ev: "adapt_step_size default_controller binary64_misc [] True 0 1 [0] [0]
      (Some [2 / 10 ^ 6]) 1 (False, False)
     = Inr (False, 0, 9 / 20, False, (False, False), successful)"
    by (simp add: controller_defs)
  from step_size_factor_rule [OF ev refl refl] ev show ?thesis
    by (simp add: controller_defs)
qed

text \<open>
  C3, counterexample: in lockstep mode, a lane with scaled error \<open>0\<close> whose peer has the
  scaled error \<open>2\<close> gets the factor \<open>9/20\<close>, not \<^verbatim>\<open>ifactor = 10\<close>.
\<close>

theorem step_size_factor_lockstep_counterexample:
  "scale_error_estimate [0] [0] [0]
      (rtol default_controller) (atol default_controller) (normf default_controller) = 0 \<and>
   ifactor (default_controller\<lparr>unvmap_dt := True\<rparr>) = 10 \<and>
   factor_of (default_controller\<lparr>unvmap_dt := True\<rparr>)
      [\<lparr>p_scaled_error = 2, p_at_dtmin = False\<rparr>] 1 False 0 = 9 / 20 \<and>
   adapt_step_size (default_controller\<lparr>unvmap_dt := True\<rparr>) binary64_misc
      [\<lparr>p_scaled_error = 2, p_at_dtmin = False\<rparr>] True 0 1 [0] [0] (Some [0]) 1 (False, False)
     = Inr (False, 0, 9 / 20, False, (False, False), successful)"
  by (simp add: controller_defs)

subsection \<open>The floor of the step size\<close>

text \<open>
  C5, as amended. With \<^verbatim>\<open>dtmin = d\<close> configured, take a call of \<^verbatim>\<open>adapt_step_size\<close>
  with \<^verbatim>\<open>y_error\<close> present whose step size \<open>dt\<close>, after the multiplier and the clip to
  \<^verbatim>\<open>dtmax\<close>, is below \<open>d\<close> (scale components non-zero, order positive, step grid
  ascending). The call floors the step size to \<open>d\<close>: it is the two grid clips of the
  interval from \<^verbatim>\<open>next_t0\<close> to \<^verbatim>\<open>next_t0 + d\<close>, with \<^verbatim>\<open>at_dtmin\<close> true in the
  state returned and the result \<^verbatim>\<open>successful\<close> when \<^verbatim>\<open>force_dtmin\<close> is true and
  \<^verbatim>\<open>dt_min_reached\<close> when it is false. Without grids it returns the interval from
  \<^verbatim>\<open>next_t0\<close> to exactly \<^verbatim>\<open>next_t0 + d\<close>; with a grid the interval returned ends at
  or before \<^verbatim>\<open>next_t0 + d\<close>.
\<close>

theorem dtmin_floor:
  assumes d: "dtmin self = Some d"
    and nz: "\<forall>m\<in>set (map2 max y0 y1). atol self + m * rtol self \<noteq> 0"
    and ord: "0 < ord"
    and asc: "\<forall>sts. step_ts self = Some sts \<longrightarrow> sorted (elems sts)"
    and se: "se = scale_error_estimate ye y0 y1 (rtol self) (atol self) (normf self)"
    and keep: "keep_step = keep_step_of self peers se (snd st)"
    and dt: "dt = clip_dtmax self ((t1 - t0) * factor_of self peers ord keep_step se)"
    and below: "dt < d"
    and n0: "n0 = (if keep_step then (if b \<and> fst st then nextafter M t1 else t1) else t0)"
    and res: "res = (if force_dtmin self then successful else dt_min_reached)"
  shows "adapt_step_size self M peers b t0 t1 y0 y1 (Some ye) ord st =
           (case clip_step_ts self n0 (n0 + d) of
              Inl e \<Rightarrow> Inl e
            | Inr s \<Rightarrow>
                (case clip_jump_ts self M True n0 s of
                   Inl e \<Rightarrow> Inl e
                 | Inr (n1, nmj) \<Rightarrow> Inr (keep_step, n0, n1, fst st, (nmj, True), res))) \<and>
         (step_ts self = None \<and> jump_ts self = None \<longrightarrow>
            adapt_step_size self M peers b t0 t1 y0 y1 (Some ye) ord st
              = Inr (keep_step, n0, n0 + d, fst st, (False, True), res)) \<and>
         (adapt_step_size self M peers b t0 t1 y0 y1 (Some ye) ord st
              = Inr (k', n0', n1', mj', (nmj', adt'), res') \<longrightarrow>
            n0' = n0 \<and> n1' \<le> n0 + d \<and> adt' \<and> res' = res)"
proof -
  have mx: "(case dtmin self of None \<Rightarrow> dt | Some mn \<Rightarrow> max dt mn) = d"
    using d below by simp
  have a: "(case dtmin self of None \<Rightarrow> False | Some mn \<Rightarrow> dt \<le> mn) = True"
    using d below by simp
  have r: "(case dtmin self of None \<Rightarrow> successful
                | Some mn \<Rightarrow> if \<not> force_dtmin self \<and> dt < mn then dt_min_reached else successful) = res"
    using d below res by simp
  have A: "adapt_step_size self M peers b t0 t1 y0 y1 (Some ye) ord st =
           (case clip_step_ts self n0 (n0 + d) of
              Inl e \<Rightarrow> Inl e
            | Inr s \<Rightarrow>
                (case clip_jump_ts self M True n0 s of
                   Inl e \<Rightarrow> Inl e
                 | Inr (n1, nmj) \<Rightarrow> Inr (keep_step, n0, n1, fst st, (nmj, True), res)))"
    using adapt_step_size_Some [OF se keep dt mx [symmetric] n0 a [symmetric] r [symmetric]] .
  have B: "adapt_step_size self M peers b t0 t1 y0 y1 (Some ye) ord st
              = Inr (keep_step, n0, n0 + d, fst st, (False, True), res)"
    if "step_ts self = None \<and> jump_ts self = None"
    unfolding A using that by (simp add: clip_grids_None)
  have C: "n0' = n0 \<and> n1' \<le> n0 + d \<and> adt' \<and> res' = res"
    if ret: "adapt_step_size self M peers b t0 t1 y0 y1 (Some ye) ord st
              = Inr (k', n0', n1', mj', (nmj', adt'), res')"
  proof -
    from ret [unfolded A] obtain s where
      s: "clip_step_ts self n0 (n0 + d) = Inr s"
         "clip_jump_ts self M True n0 s = Inr (n1', nmj')"
      and eqs: "n0' = n0" "adt'" "res' = res"
      by (auto split: sum.splits)
    from no_jump_after_step_clip [OF s asc] have "n1' = s" by simp
    with clip_step_ts_le [OF s(1)] eqs show ?thesis by simp
  qed
  from A B C show ?thesis by blast
qed

text \<open>
  C5, witness: with \<^verbatim>\<open>dtmin = 1\<close>, a rejected step from \<open>3\<close> to \<open>5\<close> with factor
  \<open>9/20\<close> has \<open>dt = 9/10\<close>, and the next interval is from \<open>3\<close> to \<open>4\<close>, with either
  value of \<^verbatim>\<open>force_dtmin\<close>.
\<close>

theorem dtmin_floor_witness:
  "adapt_step_size (default_controller\<lparr>dtmin := Some 1\<rparr>) binary64_misc [] True 3 5 [0] [0]
      (Some [2 / 10 ^ 6]) 1 (False, False)
     = Inr (False, 3, 4, False, (False, True), successful) \<and>
   adapt_step_size (default_controller\<lparr>dtmin := Some 1, force_dtmin := False\<rparr>) binary64_misc []
      True 3 5 [0] [0] (Some [2 / 10 ^ 6]) 1 (False, False)
     = Inr (False, 3, 4, False, (False, True), dt_min_reached) \<and>
   clip_dtmax (default_controller\<lparr>dtmin := Some 1\<rparr>)
      ((5 - 3) * factor_of (default_controller\<lparr>dtmin := Some 1\<rparr>) [] 1 False 2) = 9 / 10"
proof -
  let ?c1 = "default_controller\<lparr>dtmin := Some 1\<rparr>"
  let ?c2 = "default_controller\<lparr>dtmin := Some 1, force_dtmin := False\<rparr>"
  have d1: "dtmin ?c1 = Some 1" and d2: "dtmin ?c2 = Some 1"
    by (simp_all add: default_controller_def)
  have nz1: "\<forall>m\<in>set (map2 max [0] [0]). atol ?c1 + m * rtol ?c1 \<noteq> 0"
    and nz2: "\<forall>m\<in>set (map2 max [0] [0]). atol ?c2 + m * rtol ?c2 \<noteq> 0"
    by (simp_all add: default_controller_def)
  have ord: "0 < (1::nat)" by simp
  have asc1: "\<forall>sts. step_ts ?c1 = Some sts \<longrightarrow> sorted (elems sts)"
    and asc2: "\<forall>sts. step_ts ?c2 = Some sts \<longrightarrow> sorted (elems sts)"
    by (simp_all add: default_controller_def)
  have g1: "step_ts ?c1 = None \<and> jump_ts ?c1 = None"
    and g2: "step_ts ?c2 = None \<and> jump_ts ?c2 = None"
    by (simp_all add: default_controller_def)
  have b1: "clip_dtmax ?c1 ((5 - 3) * factor_of ?c1 [] 1
              (keep_step_of ?c1 []
                 (scale_error_estimate [2 / 10 ^ 6] [0] [0] (rtol ?c1) (atol ?c1) (normf ?c1))
                 (snd (False, False)))
              (scale_error_estimate [2 / 10 ^ 6] [0] [0] (rtol ?c1) (atol ?c1) (normf ?c1))) < 1"
    by (simp add: controller_defs)
  have b2: "clip_dtmax ?c2 ((5 - 3) * factor_of ?c2 [] 1
              (keep_step_of ?c2 []
                 (scale_error_estimate [2 / 10 ^ 6] [0] [0] (rtol ?c2) (atol ?c2) (normf ?c2))
                 (snd (False, False)))
              (scale_error_estimate [2 / 10 ^ 6] [0] [0] (rtol ?c2) (atol ?c2) (normf ?c2))) < 1"
    by (simp add: controller_defs)
  from dtmin_floor [OF d1 nz1 ord asc1 refl refl refl b1 refl refl, of binary64_misc True]
    dtmin_floor [OF d2 nz2 ord asc2 refl refl refl b2 refl refl, of binary64_misc True] g1 g2
  show ?thesis
    by (simp add: controller_defs)
qed

text \<open>
  C5, counterexample to "the returned step size is exactly \<open>d\<close>": with \<^verbatim>\<open>dtmin = 1\<close>
  and the step grid \<open>[3.5]\<close> the same call returns the interval from \<open>3\<close> to \<open>3.5\<close>,
  of length \<open>1/2\<close>.
\<close>

theorem dtmin_floor_grid_counterexample:
  "adapt_step_size
      (default_controller\<lparr>dtmin := Some 1, step_ts := Some \<lparr>inexact = True, elems = [7 / 2]\<rparr>\<rparr>)
      binary64_misc [] True 3 5 [0] [0] (Some [2 / 10 ^ 6]) 1 (False, False)
     = Inr (False, 3, 7 / 2, False, (False, True), successful) \<and>
   clip_dtmax
      (default_controller\<lparr>dtmin := Some 1, step_ts := Some \<lparr>inexact = True, elems = [7 / 2]\<rparr>\<rparr>)
      ((5 - 3) *
       factor_of
         (default_controller\<lparr>dtmin := Some 1, step_ts := Some \<lparr>inexact = True, elems = [7 / 2]\<rparr>\<rparr>)
         [] 1 False 2) = 9 / 10 \<and>
   (7 / 2 - 3 :: real) < 1"
  by (simp add: controller_defs)

subsection \<open>Errors\<close>

text \<open>
  C6, as amended. \<^verbatim>\<open>adapt_step_size\<close> raises a \<^verbatim>\<open>ValueError\<close> when \<^verbatim>\<open>y_error\<close> is
  absent. When \<^verbatim>\<open>y_error\<close> is present, the accept/reject and step size computations
  raise nothing: every error comes from one of the two grid clippers, a configuration
  with neither \<^verbatim>\<open>step_ts\<close> nor \<^verbatim>\<open>jump_ts\<close> always returns, and a configuration with
  the lockstep flag and one of the two grids raises \<^verbatim>\<open>NotImplementedError\<close>.
\<close>

theorem adapt_step_size_errors:
  "adapt_step_size self M peers b t0 t1 y0 y1 None ord st = Inl ValueError \<and>
   (step_ts self = None \<and> jump_ts self = None \<longrightarrow>
      (\<exists>out. adapt_step_size self M peers b t0 t1 y0 y1 (Some ye) ord st = Inr out)) \<and>
   (unvmap_dt self \<and> (step_ts self \<noteq> None \<or> jump_ts self \<noteq> None) \<longrightarrow>
      adapt_step_size self M peers b t0 t1 y0 y1 (Some ye) ord st = Inl NotImplementedError) \<and>
   (adapt_step_size self M peers b t0 t1 y0 y1 (Some ye) ord st = Inl e \<longrightarrow>
      (\<exists>a c. clip_step_ts self a c = Inl e \<or> clip_jump_ts self M True a c = Inl e))"
proof -
  have A: "adapt_step_size self M peers b t0 t1 y0 y1 None ord st = Inl ValueError"
    by (rule adapt_step_size_None)
  have B: "\<exists>out. adapt_step_size self M peers b t0 t1 y0 y1 (Some ye) ord st = Inr out"
    if "step_ts self = None \<and> jump_ts self = None"
    using that by (auto simp: adapt_step_size_def Let_def clip_grids_None)
  have C: "adapt_step_size self M peers b t0 t1 y0 y1 (Some ye) ord st = Inl NotImplementedError"
    if h: "unvmap_dt self \<and> (step_ts self \<noteq> None \<or> jump_ts self \<noteq> None)"
  proof (cases "step_ts self")
    case None
    with h obtain jts where "jump_ts self = Some jts" by auto
    with None h show ?thesis
      by (simp add: adapt_step_size_def Let_def clip_step_ts_def clip_jump_ts_def)
  next
    case (Some sts)
    with h show ?thesis
      by (simp add: adapt_step_size_def Let_def clip_step_ts_def)
  qed
  have D: "\<exists>a c. clip_step_ts self a c = Inl e \<or> clip_jump_ts self M True a c = Inl e"
    if "adapt_step_size self M peers b t0 t1 y0 y1 (Some ye) ord st = Inl e"
    using that unfolding adapt_step_size_def Let_def
    by (auto split: sum.splits)
  from A B C D show ?thesis by blast
qed

text \<open>
  C6, witness: the three cases at concrete calls.
\<close>

theorem adapt_step_size_errors_witness:
  "adapt_step_size default_controller binary64_misc [] True 0 1 [0] [0] None 1 (False, False)
     = Inl ValueError \<and>
   adapt_step_size default_controller binary64_misc [] True 0 1 [0] [0] (Some [0]) 1 (False, False)
     = Inr (True, 1, 11, False, (False, False), successful) \<and>
   adapt_step_size (default_controller\<lparr>unvmap_dt := True,
        jump_ts := Some \<lparr>inexact = True, elems = [3]\<rparr>\<rparr>) binary64_misc [] True 0 1 [0] [0]
      (Some [0]) 1 (False, False)
     = Inl NotImplementedError"
proof -
  let ?c = "default_controller\<lparr>unvmap_dt := True, jump_ts := Some \<lparr>inexact = True, elems = [3]\<rparr>\<rparr>"
  have "step_ts default_controller = None \<and> jump_ts default_controller = None"
    by (simp add: default_controller_def)
  moreover have "unvmap_dt ?c \<and> (step_ts ?c \<noteq> None \<or> jump_ts ?c \<noteq> None)"
    by (simp add: default_controller_def)
  ultimately show ?thesis
    using adapt_step_size_errors [of default_controller binary64_misc "[]" True 0 1 "[0]" "[0]" 1
        "(False, False)" "[0]" ValueError]
      adapt_step_size_errors [of ?c binary64_misc "[]" True 0 1 "[0]" "[0]" 1
        "(False, False)" "[0]" ValueError]
    by (simp add: controller_defs)
qed

text \<open>
  C6, counterexample: with \<^verbatim>\<open>y_error\<close> present, the lockstep flag and a step grid,
  \<^verbatim>\<open>adapt_step_size\<close> raises.
\<close>

theorem adapt_step_size_lockstep_grid_counterexample:
  "adapt_step_size (default_controller\<lparr>unvmap_dt := True,
        step_ts := Some \<lparr>inexact = True, elems = [1, 2, 5]\<rparr>\<rparr>) binary64_misc [] True 0 1 [0] [0]
      (Some [0]) 1 (False, False)
     = Inl NotImplementedError"
  by (simp add: controller_defs)

subsection \<open>The next interval\<close>

text \<open>
  The value that \<open>smallest_above\<close> returns is a representable value above its argument,
  and the least of them.
\<close>

lemma smallest_above_least:
  assumes "\<exists>r\<in>set R. x < r"
  shows "smallest_above R x \<in> set R \<and> x < smallest_above R x \<and>
         (\<forall>r\<in>set R. x < r \<longrightarrow> smallest_above R x \<le> r)"
proof -
  let ?G = "filter (\<lambda>r. x < r) R"
  from assms have "?G \<noteq> []" by (auto simp: filter_empty_conv)
  then obtain g gs where G: "?G = g # gs" by (cases ?G) auto
  have m: "smallest_above R x = Min (set ?G)"
    using Min.set_eq_fold [of g gs] by (simp add: smallest_above_def G)
  have fin: "finite (set ?G)" "set ?G \<noteq> {}" using G by auto
  from Min_in [OF fin] have "Min (set ?G) \<in> set ?G" .
  then have a: "smallest_above R x \<in> set R \<and> x < smallest_above R x"
    unfolding m by auto
  have "Min (set ?G) \<le> r" if "r \<in> set R" "x < r" for r
    using that fin(1) by (intro Min_le) auto
  with a show ?thesis unfolding m by blast
qed

text \<open>
  C7. A raised \<^verbatim>\<open>made_jump\<close> comes with times of a floating-point dtype (a flag is
  raised by \<^verbatim>\<open>_clip_jump_ts\<close> only for such times, lemma \<open>jump_flag_floating\<close>). Let
  \<open>_t1\<close> be \<^verbatim>\<open>nextafter(t1)\<close>, the smallest representable value strictly greater than
  \<^verbatim>\<open>t1\<close>, when the incoming \<^verbatim>\<open>made_jump\<close> is true, and \<^verbatim>\<open>t1\<close> itself otherwise.
  Then \<^verbatim>\<open>next_t0\<close> is \<open>_t1\<close> when the step is kept and \<^verbatim>\<open>t0\<close> when it is rejected,
  and \<^verbatim>\<open>next_t1\<close> is \<^verbatim>\<open>next_t0 + dt\<close>, with the new step size \<^verbatim>\<open>dt\<close>, before the
  grid clipping: the call is the two grid clips of that interval, and without grids it
  returns \<^verbatim>\<open>next_t0 + dt\<close>. (Scale components non-zero, order positive, step grid
  ascending, \<^verbatim>\<open>t1\<close> below the largest representable value.)
\<close>

theorem next_interval_rule:
  assumes fl: "made_jump \<longrightarrow> t1_inexact \<and> (\<exists>r\<in>set R. t1 < r)"
    and nz: "\<forall>m\<in>set (map2 max y0 y1). atol self + m * rtol self \<noteq> 0"
    and ord: "0 < ord"
    and asc: "\<forall>sts. step_ts self = Some sts \<longrightarrow> sorted (elems sts)"
    and se: "se = scale_error_estimate ye y0 y1 (rtol self) (atol self) (normf self)"
    and keep: "keep_step = keep_step_of self peers se at_dtmin"
    and dt_b: "dt_b = clip_dtmax self ((t1 - t0) * factor_of self peers ord keep_step se)"
    and dt: "dt = (case dtmin self of None \<Rightarrow> dt_b | Some mn \<Rightarrow> max dt_b mn)"
    and adt: "at_dtmin' = (case dtmin self of None \<Rightarrow> False | Some mn \<Rightarrow> dt_b \<le> mn)"
    and res: "res = (case dtmin self of None \<Rightarrow> successful
                | Some mn \<Rightarrow> if \<not> force_dtmin self \<and> dt_b < mn then dt_min_reached else successful)"
    and t1': "t1' = (if made_jump then nextafter (float_misc R) t1 else t1)"
    and n0: "next_t0 = (if keep_step then t1' else t0)"
  shows "(made_jump \<longrightarrow> t1' \<in> set R \<and> t1 < t1' \<and> (\<forall>r\<in>set R. t1 < r \<longrightarrow> t1' \<le> r)) \<and>
         adapt_step_size self (float_misc R) peers t1_inexact t0 t1 y0 y1 (Some ye) ord
             (made_jump, at_dtmin) =
           (case clip_step_ts self next_t0 (next_t0 + dt) of
              Inl e \<Rightarrow> Inl e
            | Inr s \<Rightarrow>
                (case clip_jump_ts self (float_misc R) True next_t0 s of
                   Inl e \<Rightarrow> Inl e
                 | Inr (next_t1, next_made_jump) \<Rightarrow>
                     Inr (keep_step, next_t0, next_t1, made_jump,
                          (next_made_jump, at_dtmin'), res))) \<and>
         (step_ts self = None \<and> jump_ts self = None \<longrightarrow>
            adapt_step_size self (float_misc R) peers t1_inexact t0 t1 y0 y1 (Some ye) ord
                (made_jump, at_dtmin)
              = Inr (keep_step, next_t0, next_t0 + dt, made_jump, (False, at_dtmin'), res))"
proof -
  have A: "t1' \<in> set R \<and> t1 < t1' \<and> (\<forall>r\<in>set R. t1 < r \<longrightarrow> t1' \<le> r)" if made_jump
  proof -
    from that fl have "\<exists>r\<in>set R. t1 < r" by simp
    from smallest_above_least [OF this] that show ?thesis
      unfolding t1' by (simp add: float_misc_def)
  qed
  have n0': "next_t0 = (if keep_step
        then (if t1_inexact \<and> fst (made_jump, at_dtmin) then nextafter (float_misc R) t1 else t1)
        else t0)"
    unfolding n0 t1' using fl by auto
  have keep': "keep_step = keep_step_of self peers se (snd (made_jump, at_dtmin))"
    unfolding keep by simp
  have B: "adapt_step_size self (float_misc R) peers t1_inexact t0 t1 y0 y1 (Some ye) ord
             (made_jump, at_dtmin) =
           (case clip_step_ts self next_t0 (next_t0 + dt) of
              Inl e \<Rightarrow> Inl e
            | Inr s \<Rightarrow>
                (case clip_jump_ts self (float_misc R) True next_t0 s of
                   Inl e \<Rightarrow> Inl e
                 | Inr (next_t1, next_made_jump) \<Rightarrow>
                     Inr (keep_step, next_t0, next_t1, made_jump,
                          (next_made_jump, at_dtmin'), res)))"
    using adapt_step_size_Some [OF se keep' dt_b dt n0' adt res] by (simp only: fst_conv)
  have C: "adapt_step_size self (float_misc R) peers t1_inexact t0 t1 y0 y1 (Some ye) ord
                (made_jump, at_dtmin)
              = Inr (keep_step, next_t0, next_t0 + dt, made_jump, (False, at_dtmin'), res)"
    if "step_ts self = None \<and> jump_ts self = None"
    unfolding B using that by (simp add: clip_grids_None)
  from A B C show ?thesis by blast
qed

text \<open>
  C7, witness: a kept step after a jump starts at the binary64 value that follows
  \<^verbatim>\<open>t1 = 1\<close>, a rejected step starts at \<^verbatim>\<open>t0\<close>.
\<close>

theorem next_interval_rule_witness:
  "adapt_step_size default_controller (float_misc binary64_near_1) [] True 0 1 [0] [0]
      (Some [1 / (2 * 10 ^ 6)]) 1 (True, False)
     = Inr (True, 1 + 1 / 2 ^ 52, 1 + 1 / 2 ^ 52 + 9 / 5, True, (False, False), successful) \<and>
   nextafter (float_misc binary64_near_1) 1 = 1 + 1 / 2 ^ 52 \<and>
   adapt_step_size default_controller (float_misc binary64_near_1) [] True 0 1 [0] [0]
      (Some [2 / 10 ^ 6]) 1 (True, False)
     = Inr (False, 0, 0 + 9 / 20, True, (False, False), successful)"
proof -
  let ?c = default_controller
  let ?R = binary64_near_1
  have fl: "True \<longrightarrow> True \<and> (\<exists>r\<in>set ?R. 1 < r)"
    by (simp add: binary64_near_1_def)
  have nz: "\<forall>m\<in>set (map2 max [0] [0]). atol ?c + m * rtol ?c \<noteq> 0"
    by (simp add: default_controller_def)
  have ord: "0 < (1::nat)" by simp
  have asc: "\<forall>sts. step_ts ?c = Some sts \<longrightarrow> sorted (elems sts)"
    by (simp add: default_controller_def)
  have g: "step_ts ?c = None \<and> jump_ts ?c = None"
    by (simp add: default_controller_def)
  have na: "nextafter (float_misc ?R) 1 = 1 + 1 / 2 ^ 52"
    by (simp add: float_misc_def smallest_above_def binary64_near_1_def)
  from next_interval_rule [OF fl nz ord asc refl refl refl refl refl refl refl refl,
        where peers = "[]" and ?t0.0 = 0 and ye = "[1 / (2 * 10 ^ 6)]"]
    next_interval_rule [OF fl nz ord asc refl refl refl refl refl refl refl refl,
        where peers = "[]" and ?t0.0 = 0 and ye = "[2 / 10 ^ 6]"] g
  show ?thesis
    by (simp add: controller_defs na Let_def)
qed

subsection \<open>Without a floor\<close>

lemma init_at_dtmin:
  assumes "init self M pd b t0 y0 dt0 solver = Inr (t1, (jump, a))" "dtmin self = None"
  shows "\<not> a"
  using assms unfolding init_def Let_def
  by (auto split: sum.splits option.splits)

text \<open>
  C10. When \<^verbatim>\<open>dtmin\<close> is not configured, the controller state that \<^verbatim>\<open>init\<close> and
  \<^verbatim>\<open>adapt_step_size\<close> return has \<^verbatim>\<open>at_dtmin\<close> false, and \<^verbatim>\<open>adapt_step_size\<close> does
  not read the incoming \<^verbatim>\<open>at_dtmin\<close>: its result is the same for both values.
\<close>

theorem at_dtmin_unset:
  assumes d: "dtmin self = None"
  shows "(init self M pd b t0 y0 dt0 solver = Inr (t1', (jump, a)) \<longrightarrow> \<not> a) \<and>
         (adapt_step_size self M peers b t0 t1 y0 y1 ye ord st
            = Inr (keep_step, n0, n1, mj, (nmj, a'), res) \<longrightarrow> \<not> a') \<and>
         adapt_step_size self M peers b t0 t1 y0 y1 ye ord (made_jump, a1)
           = adapt_step_size self M peers b t0 t1 y0 y1 ye ord (made_jump, a2)"
proof -
  have A: "\<not> a" if "init self M pd b t0 y0 dt0 solver = Inr (t1', (jump, a))"
    using that d by (rule init_at_dtmin)
  have B: "\<not> a'" if r: "adapt_step_size self M peers b t0 t1 y0 y1 ye ord st
            = Inr (keep_step, n0, n1, mj, (nmj, a'), res)"
  proof (cases ye)
    case None
    with r show ?thesis by (simp add: adapt_step_size_None)
  next
    case (Some e)
    from adapt_step_size_Inr(4) [OF r [unfolded Some] refl refl refl] d show ?thesis by simp
  qed
  have k: "keep_step_of self peers x a1 = keep_step_of self peers x a2" for x
    using d by (simp add: keep_step_of_iff)
  have C: "adapt_step_size self M peers b t0 t1 y0 y1 ye ord (made_jump, a1)
           = adapt_step_size self M peers b t0 t1 y0 y1 ye ord (made_jump, a2)"
    unfolding adapt_step_size_def Let_def fst_conv snd_conv k [of _ ] by (rule refl)
  from A B C show ?thesis by blast
qed

text \<open>
  C10, witness: with the default configuration, a call of \<^verbatim>\<open>init\<close>, and a call of
  \<^verbatim>\<open>adapt_step_size\<close> with incoming \<^verbatim>\<open>at_dtmin\<close> true and scaled error \<open>2\<close>, which is
  rejected.
\<close>

theorem at_dtmin_unset_witness:
  "dtmin default_controller = None \<and>
   init default_controller binary64_misc [] True 0 [0] (Some 1) negation_solver
     = Inr (1, (False, False)) \<and>
   adapt_step_size default_controller binary64_misc [] True 0 1 [0] [0]
      (Some [2 / 10 ^ 6]) 1 (False, True)
     = Inr (False, 0, 9 / 20, False, (False, False), successful) \<and>
   adapt_step_size default_controller binary64_misc [] True 0 1 [0] [0]
      (Some [2 / 10 ^ 6]) 1 (False, True)
     = adapt_step_size default_controller binary64_misc [] True 0 1 [0] [0]
      (Some [2 / 10 ^ 6]) 1 (False, False)"
proof -
  have d: "dtmin default_controller = None"
    by (simp add: default_controller_def)
  have ev1: "init default_controller binary64_misc [] True 0 [0] (Some 1) negation_solver
     = Inr (1, (False, False))"
    by (simp add: controller_defs)
  have ev2: "adapt_step_size default_controller binary64_misc [] True 0 1 [0] [0]
      (Some [2 / 10 ^ 6]) 1 (False, True)
     = Inr (False, 0, 9 / 20, False, (False, False), successful)"
    by (simp add: controller_defs)
  from at_dtmin_unset [OF d, where M = binary64_misc and pd = "[]" and b = True and ?t0.0 = 0
      and ?y0.0 = "[0]" and ?dt0.0 = "Some 1" and solver = negation_solver and t1' = 1
      and jump = False and a = False and peers = "[]" and ?t1.0 = 1 and ?y1.0 = "[0]"
      and ye = "Some [2 / 10 ^ 6]" and ord = 1 and st = "(False, True)" and keep_step = False
      and ?n0.0 = 0 and ?n1.0 = "9 / 20" and mj = False and nmj = False and a' = False
      and res = successful and made_jump = False and ?a1.0 = True and ?a2.0 = False]
  have "adapt_step_size default_controller binary64_misc [] True 0 1 [0] [0]
      (Some [2 / 10 ^ 6]) 1 (False, True)
     = adapt_step_size default_controller binary64_misc [] True 0 1 [0] [0]
      (Some [2 / 10 ^ 6]) 1 (False, False)"
    by blast
  with d ev1 ev2 show ?thesis by blast
qed

section \<open>Properties of the initial step selector\<close>

text \<open>
  When the product of the literals \<open>0.01\<close> and \<open>1e-15\<close> does not underflow, none of the
  literals of the selector does.
\<close>

lemma literals_positive:
  assumes F: "rounding F" and U: "0 < rnd F (rnd F (1 / 100) * rnd F (1 / 10 ^ 15))"
  shows "0 < rnd F (1 / 10 ^ 15)" "0 < rnd F (1 / 100)" "0 < rnd F (1 / 10 ^ 6)"
    "0 < rnd F (1 / 10 ^ 5)" "0 < rnd F (1 / 10 ^ 3)"
proof -
  have a: "0 \<le> rnd F (1 / 100)" and b: "0 \<le> rnd F (1 / 10 ^ 15)"
    using F by (auto intro: rounding_nonneg)
  have "rnd F (1 / 100) * rnd F (1 / 10 ^ 15) \<noteq> 0"
    using U F by (auto simp: rounding_def)
  with a b show c15: "0 < rnd F (1 / 10 ^ 15)" and "0 < rnd F (1 / 100)"
    by auto
  have "rnd F (1 / 10 ^ 15) \<le> rnd F (1 / 10 ^ 6)" using F by (intro rounding_mono) auto
  with c15 show "0 < rnd F (1 / 10 ^ 6)" by simp
  have "rnd F (1 / 10 ^ 15) \<le> rnd F (1 / 10 ^ 5)" using F by (intro rounding_mono) auto
  with c15 show "0 < rnd F (1 / 10 ^ 5)" by simp
  have "rnd F (1 / 10 ^ 15) \<le> rnd F (1 / 10 ^ 3)" using F by (intro rounding_mono) auto
  with c15 show "0 < rnd F (1 / 10 ^ 3)" by simp
qed

text \<open>The selector in floating-point arithmetic, step by step.\<close>

lemma select_initial_step_float:
  assumes f0: "f0 = func_for_init solver t0 y0"
    and scale: "scale = map (\<lambda>y. fadd F atol' (fmul F (fabs y) rtol')) y0"
    and d0: "d0 = norm' (map2 (fdiv F) y0 scale)"
    and d1: "d1 = norm' (map2 (fdiv F) f0 scale)"
    and h0: "h0 = (if fless d0 (box F (1 / 10 ^ 5)) \<or> fless d1 (box F (1 / 10 ^ 5))
                   then box F (1 / 10 ^ 6)
                   else fmul F (box F (1 / 100)) (fdiv F d0 d1))"
    and f1: "f1 = func_for_init solver (fadd F t0 h0) (map2 (\<lambda>y f. fadd F y (fmul F h0 f)) y0 f0)"
    and d2: "d2 = fdiv F (norm' (map2 (fdiv F) (map2 (fsub F) f1 f0) scale)) h0"
    and h1: "h1 = (if fle d1 (box F (1 / 10 ^ 15)) \<or> fle d2 (box F (1 / 10 ^ 15))
                   then fmaximum (box F (1 / 10 ^ 6)) (fmul F h0 (box F (1 / 10 ^ 3)))
                   else fpow F (fmul F (box F (1 / 100)) (fmaximum d1 d2))
                          (box F (1 / order solver)))"
  shows "select_initial_step (float_arith F) t0 y0 solver rtol' atol' norm' =
           (if order solver = 0 then Inl ZeroDivisionError
            else Inr (fminimum (fmul F (box F 100) h0) h1))"
  unfolding select_initial_step_def Let_def h1 d2 f1 h0 d1 d0 scale f0
  by (simp add: float_arith_def cong: if_cong)

text \<open>
  C9, as amended. In the arithmetic of a floating-point format with a rounding, in which
  \<open>0.01 * 1e-15\<close> does not underflow, and with finite norms \<open>d0\<close>, \<open>d1\<close> and
  \<open>norm((f1 - f0) / scale)\<close>: \<open>h0\<close> is \<open>1e-6\<close> if \<open>d0 < 1e-5\<close> or \<open>d1 < 1e-5\<close> and
  \<open>0.01 * (d0 / d1)\<close> otherwise, \<open>d2\<close> is \<open>norm((f1 - f0) / scale) / h0\<close>, \<open>h1\<close> is
  \<open>max 1e-6 (h0 * 1e-3)\<close> if \<open>d1 \<le> 1e-15\<close> or \<open>d2 \<le> 1e-15\<close> and
  \<open>(0.01 * max d1 d2) ** (1 / order)\<close> otherwise. For an order of zero the selector
  raises; for every other order it returns \<open>min (100 * h0) h1\<close>. For an order of at
  least \<open>1\<close> the value returned is positive, finite or infinite, when \<open>h0\<close> is not zero,
  that is, when \<open>0.01 * (d0 / d1)\<close> has not underflowed.
\<close>

theorem select_initial_step_rule:
  assumes F: "rounding F"
    and U: "0 < rnd F (rnd F (1 / 100) * rnd F (1 / 10 ^ 15))"
    and f0: "f0 = func_for_init solver t0 y0"
    and scale: "scale = map (\<lambda>y. fadd F atol' (fmul F (fabs y) rtol')) y0"
    and d0: "norm' (map2 (fdiv F) y0 scale) = Fin d0"
    and d1: "norm' (map2 (fdiv F) f0 scale) = Fin d1"
    and h0: "h0 = (if d0 < rnd F (1 / 10 ^ 5) \<or> d1 < rnd F (1 / 10 ^ 5)
                   then box F (1 / 10 ^ 6)
                   else fmul F (box F (1 / 100)) (fdiv F (Fin d0) (Fin d1)))"
    and f1: "f1 = func_for_init solver (fadd F t0 h0) (map2 (\<lambda>y f. fadd F y (fmul F h0 f)) y0 f0)"
    and n2: "norm' (map2 (fdiv F) (map2 (fsub F) f1 f0) scale) = Fin n2"
    and d2: "d2 = fdiv F (Fin n2) h0"
    and h1: "h1 = (if d1 \<le> rnd F (1 / 10 ^ 15) \<or> fle d2 (box F (1 / 10 ^ 15))
                   then fmaximum (box F (1 / 10 ^ 6)) (fmul F h0 (box F (1 / 10 ^ 3)))
                   else fpow F (fmul F (box F (1 / 100)) (fmaximum (Fin d1) d2))
                          (box F (1 / order solver)))"
  shows "(order solver = 0 \<longrightarrow>
            select_initial_step (float_arith F) t0 y0 solver rtol' atol' norm'
              = Inl ZeroDivisionError) \<and>
         (order solver \<noteq> 0 \<longrightarrow>
            select_initial_step (float_arith F) t0 y0 solver rtol' atol' norm'
              = Inr (fminimum (fmul F (box F 100) h0) h1)) \<and>
         (1 \<le> order solver \<and> h0 \<noteq> Fin 0 \<longrightarrow>
            fminimum (fmul F (box F 100) h0) h1 = PInf \<or>
            (\<exists>r. 0 < r \<and> fminimum (fmul F (box F 100) h0) h1 = Fin r))"
proof -
  note lits = literals_positive [OF F U]
  have l5: "box F (1 / 10 ^ 5) = Fin (rnd F (1 / 10 ^ 5))"
    using box_lit_small [OF F lits(4)] by simp
  have l15: "box F (1 / 10 ^ 15) = Fin (rnd F (1 / 10 ^ 15))"
    using box_lit_small [OF F lits(1)] by simp
  have l6: "box F (1 / 10 ^ 6) = Fin (rnd F (1 / 10 ^ 6))"
    using box_lit_small [OF F lits(3)] by simp
  have l3: "box F (1 / 10 ^ 3) = Fin (rnd F (1 / 10 ^ 3))"
    using box_lit_small [OF F lits(5)] by simp
  have l100: "box F (1 / 100) = Fin (rnd F (1 / 100))"
    using box_lit_small [OF F lits(2)] by simp
  have sel: "select_initial_step (float_arith F) t0 y0 solver rtol' atol' norm' =
           (if order solver = 0 then Inl ZeroDivisionError
            else Inr (fminimum (fmul F (box F 100) h0) h1))"
  proof (rule select_initial_step_float [OF f0 scale refl refl _ _ _ _])
    show "h0 = (if fless (norm' (map2 (fdiv F) y0 scale)) (box F (1 / 10 ^ 5)) \<or>
                   fless (norm' (map2 (fdiv F) f0 scale)) (box F (1 / 10 ^ 5))
                then box F (1 / 10 ^ 6)
                else fmul F (box F (1 / 100))
                       (fdiv F (norm' (map2 (fdiv F) y0 scale)) (norm' (map2 (fdiv F) f0 scale))))"
      unfolding d0 d1 l5 h0 by simp
    show "f1 = func_for_init solver (fadd F t0 h0) (map2 (\<lambda>y f. fadd F y (fmul F h0 f)) y0 f0)"
      by (rule f1)
    show "d2 = fdiv F (norm' (map2 (fdiv F) (map2 (fsub F) f1 f0) scale)) h0"
      unfolding n2 by (rule d2)
    show "h1 = (if fle (norm' (map2 (fdiv F) f0 scale)) (box F (1 / 10 ^ 15)) \<or>
                   fle d2 (box F (1 / 10 ^ 15))
                then fmaximum (box F (1 / 10 ^ 6)) (fmul F h0 (box F (1 / 10 ^ 3)))
                else fpow F (fmul F (box F (1 / 100)) (fmaximum (norm' (map2 (fdiv F) f0 scale)) d2))
                       (box F (1 / order solver)))"
      unfolding d1 h1 l15 by simp
  qed
  have pos: "fpos F (fminimum (fmul F (box F 100) h0) h1)"
    if ord: "1 \<le> order solver" and nz: "h0 \<noteq> Fin 0"
  proof -
    have h0_nn: "fnonneg h0 \<and> (\<forall>r. h0 = Fin r \<longrightarrow> rnd F r = r)"
    proof (cases "d0 < rnd F (1 / 10 ^ 5) \<or> d1 < rnd F (1 / 10 ^ 5)")
      case True
      then show ?thesis
        unfolding h0 l6 using lits(3) by (simp add: rounding_idem [OF F])
    next
      case False
      then have p: "0 < d0" "0 < d1" using lits(4) by auto
      then have q: "fdiv F (Fin d0) (Fin d1) = box F (d0 / d1)" by simp
      have nn: "fnonneg (box F (d0 / d1))"
        using p by (intro box_nonneg [OF F]) auto
      have "fnonneg (fmul F (Fin (rnd F (1 / 100))) (box F (d0 / d1))) \<and>
            (\<forall>r. fmul F (Fin (rnd F (1 / 100))) (box F (d0 / d1)) = Fin r \<longrightarrow> rnd F r = r)"
      proof (cases "box F (d0 / d1)")
        case (Fin x)
        with nn have "0 \<le> x" by simp
        then have "0 \<le> rnd F (1 / 100) * x" using lits(2) by simp
        then show ?thesis
          unfolding Fin using box_nonneg [OF F] box_repr [OF F] by auto
      next
        case PInf
        then show ?thesis using lits(2) by simp
      qed (use nn in auto)
      with False show ?thesis
        unfolding h0 l100 q by simp
    qed
    then have h0_pos: "fpos F h0"
      using nz by (intro fnonneg_nonzero_fpos) auto
    have A: "fpos F (fmul F (box F 100) h0)"
      using h0_pos by (intro fmul_fpos_ge1 [OF F]) auto
    have d2_nan: "d2 \<noteq> NaN"
    proof (cases h0)
      case (Fin y)
      with h0_pos have "0 < y" by simp
      then show ?thesis
        unfolding d2 Fin using box_cases [of F "n2 / y"] by auto
    next
      case PInf
      then show ?thesis unfolding d2 by simp
    qed (use h0_pos in auto)
    have B: "fpos F h1"
    proof (cases "d1 \<le> rnd F (1 / 10 ^ 15) \<or> fle d2 (box F (1 / 10 ^ 15))")
      case True
      have "fpos F (fmaximum (Fin (rnd F (1 / 10 ^ 6))) (fmul F h0 (Fin (rnd F (1 / 10 ^ 3)))))"
      proof (cases h0)
        case (Fin y)
        with h0_pos have "0 < y" by simp
        then have nn: "0 \<le> y * rnd F (1 / 10 ^ 3)" using lits(5) by simp
        show ?thesis
        proof (cases "box F (y * rnd F (1 / 10 ^ 3))")
          case (Fin z)
          from box_repr [OF F Fin] have "rnd F z = z" .
          then show ?thesis
            unfolding \<open>h0 = Fin y\<close> using Fin lits(3)
            by (simp add: rounding_idem [OF F] max_def)
        next
          case PInf
          then show ?thesis unfolding \<open>h0 = Fin y\<close> by simp
        next
          case NInf
          with box_nonneg [OF F nn] show ?thesis by simp
        next
          case NaN
          with box_nonneg [OF F nn] show ?thesis by simp
        qed
      next
        case PInf
        then show ?thesis using lits(5) by simp
      qed (use h0_pos in auto)
      with True show ?thesis unfolding h1 l6 l3 by simp
    next
      case False
      then have d1p: "rnd F (1 / 10 ^ 15) < d1" and d2l: "\<not> fle d2 (Fin (rnd F (1 / 10 ^ 15)))"
        unfolding l15 by auto
      have m: "fmaximum (Fin d1) d2 = PInf \<or>
               (\<exists>x. rnd F (1 / 10 ^ 15) \<le> x \<and> fmaximum (Fin d1) d2 = Fin x)"
        using d2_nan d2l d1p by (cases d2) (auto simp: max_def)
      have base: "fpos F (fmul F (Fin (rnd F (1 / 100))) (fmaximum (Fin d1) d2))"
        using m
      proof
        assume "fmaximum (Fin d1) d2 = PInf"
        then show ?thesis using lits(2) by simp
      next
        assume "\<exists>x. rnd F (1 / 10 ^ 15) \<le> x \<and> fmaximum (Fin d1) d2 = Fin x"
        then obtain x where x: "rnd F (1 / 10 ^ 15) \<le> x" "fmaximum (Fin d1) d2 = Fin x"
          by blast
        have "rnd F (1 / 100) * rnd F (1 / 10 ^ 15) \<le> rnd F (1 / 100) * x"
          using x(1) lits(2) by simp
        then have "fpos F (box F (rnd F (1 / 100) * x))"
          by (rule box_fpos [OF F U])
        then show ?thesis unfolding x(2) by simp
      qed
      have e: "0 < 1 / order solver" "1 / order solver \<le> 1"
        using ord by auto
      have "rnd F (1 / order solver) \<le> rnd F 1" using F e(2) by (rule rounding_mono)
      then have e1: "rnd F (1 / order solver) \<le> 1" using F by (simp add: rounding_def)
      have e0: "0 \<le> rnd F (1 / order solver)"
        using F e(1) by (intro rounding_nonneg) auto
      have fm: "1 \<le> fmax F" using F by (simp add: rounding_def)
      have le: "box F (1 / order solver) = Fin (rnd F (1 / order solver))"
        using e0 e1 fm by (simp add: box_def Let_def)
      have "fpos F (fpow F (fmul F (Fin (rnd F (1 / 100))) (fmaximum (Fin d1) d2))
                      (Fin (rnd F (1 / order solver))))"
      proof (cases "rnd F (1 / order solver) = 0")
        case True
        then show ?thesis using F by (simp add: rounding_def)
      next
        case ne: False
        with e0 have ep: "0 < rnd F (1 / order solver)" by simp
        show ?thesis
        proof (cases "fmul F (Fin (rnd F (1 / 100))) (fmaximum (Fin d1) d2)")
          case (Fin b)
          with base have b: "0 < b" "rnd F b = b" by auto
          have "min b 1 \<le> b powr rnd F (1 / order solver)"
          proof (cases "b \<le> 1")
            case True
            have "b powr 1 \<le> b powr rnd F (1 / order solver)"
              using b(1) True e1 by (intro powr_mono') auto
            with True b(1) show ?thesis by simp
          next
            case False
            then have "1 \<le> b powr rnd F (1 / order solver)"
              using e0 by (intro ge_one_powr_ge_zero) auto
            with False show ?thesis by simp
          qed
          moreover have "0 < min b 1" "rnd F (min b 1) = min b 1"
            using b F by (auto simp: min_def rounding_def)
          ultimately have "fpos F (box F (b powr rnd F (1 / order solver)))"
            using box_fpos_repr [OF F] by blast
          then show ?thesis unfolding Fin using ne b(1) by simp
        next
          case PInf
          then show ?thesis using ne ep by simp
        qed (use base in auto)
      qed
      with False show ?thesis unfolding h1 l100 le by simp
    qed
    from A B show ?thesis by (rule fminimum_fpos)
  qed
  have pos': "fminimum (fmul F (box F 100) h0) h1 = PInf \<or>
            (\<exists>r. 0 < r \<and> fminimum (fmul F (box F 100) h0) h1 = Fin r)"
    if "1 \<le> order solver \<and> h0 \<noteq> Fin 0"
    using pos that by (cases "fminimum (fmul F (box F 100) h0) h1") auto
  from sel pos' show ?thesis by auto
qed

text \<open>
  C9, witness: \<open>dy/dt = -y\<close> from \<open>y0 = 1\<close> with \<open>rtol = 1e-3\<close> and \<open>atol = 1e-6\<close>, in
  the range of binary32: \<open>h0 = 1/100\<close>, \<open>h1 = 10000/1001\<close>, and the step selected is
  \<open>1\<close>.
\<close>

lemma binary32_box:
  "1 / 2 ^ 150 < r \<Longrightarrow> r \<le> (2 - 1 / 2 ^ 23) * 2 ^ 127 \<Longrightarrow> box binary32 r = Fin r"
  by (simp add: box_def binary32_def Let_def)

lemma binary32_literals:
  "0 < rnd binary32 (rnd binary32 (1 / 100) * rnd binary32 (1 / 10 ^ 15))"
  by (simp add: binary32_def)

theorem select_initial_step_rule_witness:
  "rounding binary32 \<and>
   0 < rnd binary32 (rnd binary32 (1 / 100) * rnd binary32 (1 / 10 ^ 15)) \<and>
   select_initial_step (float_arith binary32) (Fin 0) [Fin 1] (float_negation_solver binary32)
      (Fin (1 / 10 ^ 3)) (Fin (1 / 10 ^ 6)) (abs_sum_norm binary32) = Inr (Fin 1)"
proof -
  let ?F = binary32
  let ?S = "float_negation_solver binary32"
  have f0: "[Fin (- 1)] = func_for_init ?S (Fin 0) [Fin 1]"
    by (simp add: float_negation_solver_def box_def binary32_def Let_def)
  have scale: "[Fin (1001 / 10 ^ 6)]
      = map (\<lambda>y. fadd ?F (Fin (1 / 10 ^ 6)) (fmul ?F (fabs y) (Fin (1 / 10 ^ 3)))) [Fin 1]"
    by (simp add: binary32_box)
  have d0: "abs_sum_norm ?F (map2 (fdiv ?F) [Fin 1] [Fin (1001 / 10 ^ 6)]) = Fin (10 ^ 6 / 1001)"
    by (simp add: abs_sum_norm_def binary32_box)
  have d1: "abs_sum_norm ?F (map2 (fdiv ?F) [Fin (- 1)] [Fin (1001 / 10 ^ 6)]) = Fin (10 ^ 6 / 1001)"
    by (simp add: abs_sum_norm_def box_def binary32_def Let_def)
  have h0: "Fin (1 / 100) =
      (if (10 ^ 6 / 1001 :: real) < rnd ?F (1 / 10 ^ 5) \<or> (10 ^ 6 / 1001 :: real) < rnd ?F (1 / 10 ^ 5)
       then box ?F (1 / 10 ^ 6)
       else fmul ?F (box ?F (1 / 100)) (fdiv ?F (Fin (10 ^ 6 / 1001)) (Fin (10 ^ 6 / 1001))))"
    by (simp add: box_def binary32_def Let_def)
  have f1: "[Fin (- 99 / 100)] =
      func_for_init ?S (fadd ?F (Fin 0) (Fin (1 / 100)))
        (map2 (\<lambda>y f. fadd ?F y (fmul ?F (Fin (1 / 100)) f)) [Fin 1] [Fin (- 1)])"
    by (simp add: float_negation_solver_def box_def binary32_def Let_def)
  have n2: "abs_sum_norm ?F
        (map2 (fdiv ?F) (map2 (fsub ?F) [Fin (- 99 / 100)] [Fin (- 1)]) [Fin (1001 / 10 ^ 6)])
      = Fin (10 ^ 4 / 1001)"
    by (simp add: abs_sum_norm_def box_def binary32_def Let_def)
  have d2: "Fin (10 ^ 6 / 1001) = fdiv ?F (Fin (10 ^ 4 / 1001)) (Fin (1 / 100))"
    by (simp add: box_def binary32_def Let_def)
  have h1: "Fin (10 ^ 4 / 1001) =
      (if (10 ^ 6 / 1001 :: real) \<le> rnd ?F (1 / 10 ^ 15) \<or>
          fle (Fin (10 ^ 6 / 1001)) (box ?F (1 / 10 ^ 15))
       then fmaximum (box ?F (1 / 10 ^ 6)) (fmul ?F (Fin (1 / 100)) (box ?F (1 / 10 ^ 3)))
       else fpow ?F (fmul ?F (box ?F (1 / 100)) (fmaximum (Fin (10 ^ 6 / 1001)) (Fin (10 ^ 6 / 1001))))
              (box ?F (1 / order ?S)))"
    by (simp add: float_negation_solver_def box_def binary32_def Let_def)
  have r: "fminimum (fmul ?F (box ?F 100) (Fin (1 / 100))) (Fin (10 ^ 4 / 1001)) = Fin 1"
    by (simp add: box_def binary32_def Let_def)
  have o: "order ?S \<noteq> 0"
    by (simp add: float_negation_solver_def)
  from select_initial_step_rule [OF binary32_rounding binary32_literals f0 scale d0 d1 h0 f1 n2 d2 h1]
    o r binary32_rounding binary32_literals
  show ?thesis by simp
qed

text \<open>
  C9, counterexample to "strictly positive whenever the derivative evaluations and norms
  are finite": in binary32, with the sum of magnitudes as the norm, \<open>dy/dt = 3.3e32\<close> from
  \<open>y0 = 2e-11\<close> has the finite derivative \<open>3.3e32\<close> and the finite norms \<open>d0\<close> (about
  \<open>2e-5\<close>) and \<open>d1\<close> (about \<open>3.3e38\<close>); \<open>0.01 * (d0 / d1)\<close> underflows to \<open>0\<close>, the third
  norm is \<open>0\<close>, \<open>d2\<close> is \<open>0 / 0\<close>, and the selector returns NaN.
\<close>

theorem select_initial_step_underflow_counterexample:
  "func_for_init (constant_solver (Fin (33 * 10 ^ 31))) (Fin 0) [Fin (2 / 10 ^ 11)]
     = [Fin (33 * 10 ^ 31)] \<and>
   abs_sum_norm binary32 (map2 (fdiv binary32) [Fin (2 / 10 ^ 11)]
      (map (\<lambda>y. fadd binary32 (Fin (1 / 10 ^ 6)) (fmul binary32 (fabs y) (Fin (1 / 10 ^ 3))))
         [Fin (2 / 10 ^ 11)]))
     = Fin (1000 / 50000001) \<and>
   abs_sum_norm binary32 (map2 (fdiv binary32) [Fin (33 * 10 ^ 31)]
      (map (\<lambda>y. fadd binary32 (Fin (1 / 10 ^ 6)) (fmul binary32 (fabs y) (Fin (1 / 10 ^ 3))))
         [Fin (2 / 10 ^ 11)]))
     = Fin (55 * 10 ^ 44 / 16666667) \<and>
   fmul binary32 (box binary32 (1 / 100))
      (fdiv binary32 (Fin (1000 / 50000001)) (Fin (55 * 10 ^ 44 / 16666667))) = Fin 0 \<and>
   abs_sum_norm binary32 (map2 (fdiv binary32)
      (map2 (fsub binary32) [Fin (33 * 10 ^ 31)] [Fin (33 * 10 ^ 31)])
      (map (\<lambda>y. fadd binary32 (Fin (1 / 10 ^ 6)) (fmul binary32 (fabs y) (Fin (1 / 10 ^ 3))))
         [Fin (2 / 10 ^ 11)]))
     = Fin 0 \<and>
   select_initial_step (float_arith binary32) (Fin 0) [Fin (2 / 10 ^ 11)]
      (constant_solver (Fin (33 * 10 ^ 31))) (Fin (1 / 10 ^ 3)) (Fin (1 / 10 ^ 6))
      (abs_sum_norm binary32) = Inr NaN"
proof -
  let ?F = binary32
  let ?S = "constant_solver (Fin (33 * 10 ^ 31))"
  let ?scale = "map (\<lambda>y. fadd ?F (Fin (1 / 10 ^ 6)) (fmul ?F (fabs y) (Fin (1 / 10 ^ 3))))
         [Fin (2 / 10 ^ 11)]"
  have f0: "func_for_init ?S (Fin 0) [Fin (2 / 10 ^ 11)] = [Fin (33 * 10 ^ 31)]"
    by (simp add: constant_solver_def)
  have scale: "?scale = [Fin (50000001 / (5 * 10 ^ 13))]"
    by (simp add: box_def binary32_def Let_def)
  have d0: "abs_sum_norm ?F (map2 (fdiv ?F) [Fin (2 / 10 ^ 11)] ?scale) = Fin (1000 / 50000001)"
    unfolding scale by (simp add: abs_sum_norm_def box_def binary32_def Let_def)
  have d1: "abs_sum_norm ?F (map2 (fdiv ?F) [Fin (33 * 10 ^ 31)] ?scale)
      = Fin (55 * 10 ^ 44 / 16666667)"
    unfolding scale by (simp add: abs_sum_norm_def box_def binary32_def Let_def)
  have h0: "fmul ?F (box ?F (1 / 100))
      (fdiv ?F (Fin (1000 / 50000001)) (Fin (55 * 10 ^ 44 / 16666667))) = Fin 0"
    by (simp add: box_def binary32_def Let_def)
  have h0': "Fin 0 =
      (if fless (abs_sum_norm ?F (map2 (fdiv ?F) [Fin (2 / 10 ^ 11)] ?scale)) (box ?F (1 / 10 ^ 5)) \<or>
          fless (abs_sum_norm ?F (map2 (fdiv ?F) [Fin (33 * 10 ^ 31)] ?scale)) (box ?F (1 / 10 ^ 5))
       then box ?F (1 / 10 ^ 6)
       else fmul ?F (box ?F (1 / 100))
              (fdiv ?F (abs_sum_norm ?F (map2 (fdiv ?F) [Fin (2 / 10 ^ 11)] ?scale))
                 (abs_sum_norm ?F (map2 (fdiv ?F) [Fin (33 * 10 ^ 31)] ?scale))))"
    unfolding d0 d1 h0 by (simp add: box_def binary32_def Let_def)
  have f1: "[Fin (33 * 10 ^ 31)] =
      func_for_init ?S (fadd ?F (Fin 0) (Fin 0))
        (map2 (\<lambda>y f. fadd ?F y (fmul ?F (Fin 0) f)) [Fin (2 / 10 ^ 11)] [Fin (33 * 10 ^ 31)])"
    by (simp add: constant_solver_def)
  have n2: "abs_sum_norm ?F (map2 (fdiv ?F)
      (map2 (fsub ?F) [Fin (33 * 10 ^ 31)] [Fin (33 * 10 ^ 31)]) ?scale) = Fin 0"
    unfolding scale by (simp add: abs_sum_norm_def box_def binary32_def Let_def)
  have d2: "NaN = fdiv ?F (abs_sum_norm ?F (map2 (fdiv ?F)
      (map2 (fsub ?F) [Fin (33 * 10 ^ 31)] [Fin (33 * 10 ^ 31)]) ?scale)) (Fin 0)"
    unfolding n2 by simp
  have h1: "NaN =
      (if fle (abs_sum_norm ?F (map2 (fdiv ?F) [Fin (33 * 10 ^ 31)] ?scale)) (box ?F (1 / 10 ^ 15)) \<or>
          fle NaN (box ?F (1 / 10 ^ 15))
       then fmaximum (box ?F (1 / 10 ^ 6)) (fmul ?F (Fin 0) (box ?F (1 / 10 ^ 3)))
       else fpow ?F (fmul ?F (box ?F (1 / 100))
                       (fmaximum (abs_sum_norm ?F (map2 (fdiv ?F) [Fin (33 * 10 ^ 31)] ?scale)) NaN))
              (box ?F (1 / order ?S)))"
    unfolding d1 by (simp add: constant_solver_def box_def binary32_def Let_def)
  have sel: "select_initial_step (float_arith ?F) (Fin 0) [Fin (2 / 10 ^ 11)] ?S
      (Fin (1 / 10 ^ 3)) (Fin (1 / 10 ^ 6)) (abs_sum_norm ?F) = Inr NaN"
    using select_initial_step_float [OF f0 [symmetric] refl refl refl h0' f1 d2 h1]
    by (simp add: constant_solver_def box_def binary32_def Let_def)
  from f0 d0 d1 h0 n2 sel show ?thesis by blast
qed

end
